theory Spec2Isabelle
  imports
    Complex_Main
    "HOL-Library.Char_ord"
    "HOL-Library.List_Lexorder"
    "HOL-Library.AList"
    "HOL-Library.Multiset"
    "HOL-Library.Sublist"
begin

section \<open>Common data\<close>

text \<open>
  Python \<open>bytes\<close> objects are lists of 8-bit characters; \<open>of_char\<close> reads a byte as the
  integer Python yields when a \<open>bytes\<close> object is indexed. Python \<open>str\<close> values are
  represented by their byte sequence as well.
\<close>

type_synonym bytes = "char list"

text \<open>The exceptions the modelled functions raise, as values.\<close>

datatype error =
    ValueError
  | TypeError
  | KeyError
  | IndexError
  | BencodeError
  | ConnectionClosed
  | StructError
  | UnicodeDecodeError
  | OutOfFuel

text \<open>A slice \<open>xs[i:j]\<close> with literal bounds \<open>0 \<le> i \<le> j\<close>.\<close>

definition slice :: "nat \<Rightarrow> nat \<Rightarrow> 'a list \<Rightarrow> 'a list" where
  "slice i j xs = take (j - i) (drop i xs)"

text \<open>
  Python slicing \<open>xs[:j]\<close> and indexing \<open>xs[i]\<close> for an arbitrary integer: a negative
  bound counts from the end, a slice clamps, an index out of range raises.
\<close>

definition py_slice_to :: "'a list \<Rightarrow> int \<Rightarrow> 'a list" where
  "py_slice_to xs j =
     (if j < 0 then take (nat (int (length xs) + j)) xs else take (nat j) xs)"

definition py_index :: "'a list \<Rightarrow> int \<Rightarrow> error + 'a" where
  "py_index xs i =
     (if 0 \<le> i
      then (if nat i < length xs then Inr (xs ! nat i) else Inl IndexError)
      else (if - i \<le> int (length xs) then Inr (xs ! nat (int (length xs) + i))
            else Inl IndexError))"

subsection \<open>Decoding UTF-8\<close>

text \<open>
  \<open>b.decode('utf-8')\<close> raises \<open>UnicodeDecodeError\<close> unless the bytes are well-formed
  UTF-8 (no overlong forms, no surrogates, nothing above U+10FFFF). The decoded text is
  represented by its UTF-8 bytes, so a successful decoding returns the bytes unchanged.
\<close>

definition byte_in :: "char \<Rightarrow> nat \<Rightarrow> nat \<Rightarrow> bool" where
  "byte_in c lo hi \<longleftrightarrow> lo \<le> of_char c \<and> (of_char c :: nat) \<le> hi"

fun utf8_valid :: "bytes \<Rightarrow> bool" where
  "utf8_valid [] = True"
| "utf8_valid (c # cs) =
     (if byte_in c 0x00 0x7F then utf8_valid cs
      else if byte_in c 0xC2 0xDF then
        1 \<le> length cs \<and> byte_in (cs ! 0) 0x80 0xBF \<and> utf8_valid (drop 1 cs)
      else if byte_in c 0xE0 0xEF then
        2 \<le> length cs
        \<and> byte_in (cs ! 0) (if c = CHR 0xE0 then 0xA0 else 0x80)
              (if c = CHR 0xED then 0x9F else 0xBF)
        \<and> byte_in (cs ! 1) 0x80 0xBF \<and> utf8_valid (drop 2 cs)
      else if byte_in c 0xF0 0xF4 then
        3 \<le> length cs
        \<and> byte_in (cs ! 0) (if c = CHR 0xF0 then 0x90 else 0x80)
              (if c = CHR 0xF4 then 0x8F else 0xBF)
        \<and> byte_in (cs ! 1) 0x80 0xBF \<and> byte_in (cs ! 2) 0x80 0xBF \<and> utf8_valid (drop 3 cs)
      else False)"

declare utf8_valid.simps [simp del]

definition decode_utf8 :: "bytes \<Rightarrow> error + string" where
  "decode_utf8 b = (if utf8_valid b then Inr b else Inl UnicodeDecodeError)"

fun decode_all_utf8 :: "bytes list \<Rightarrow> error + string list" where
  "decode_all_utf8 [] = Inr []"
| "decode_all_utf8 (part # rest) =
     (case decode_utf8 part of
        Inl e \<Rightarrow> Inl e
      | Inr s \<Rightarrow>
          (case decode_all_utf8 rest of
             Inl e \<Rightarrow> Inl e
           | Inr ss \<Rightarrow> Inr (s # ss)))"

subsection \<open>Decimal rendering of integers\<close>

text \<open>
  \<open>str(n)\<close> for a Python integer, as used by the f-string \<open>f"{ip}:{port}"\<close> and by the
  bencode encoder.
\<close>

definition digit_char :: "nat \<Rightarrow> char" where
  "digit_char d = ''0123456789'' ! d"

fun str_nat :: "nat \<Rightarrow> string" where
  "str_nat n = (if n < 10 then [digit_char n] else str_nat (n div 10) @ [digit_char (n mod 10)])"

declare str_nat.simps [simp del]

definition str_int :: "int \<Rightarrow> string" where
  "str_int i = (if i < 0 then CHR ''-'' # str_nat (nat (- i)) else str_nat (nat i))"

definition is_digit :: "char \<Rightarrow> bool" where
  "is_digit c \<longleftrightarrow> (48::nat) \<le> of_char c \<and> (of_char c :: nat) \<le> 57"

definition digit_val :: "char \<Rightarrow> nat" where
  "digit_val c = of_char c - 48"

definition nat_of_digits :: "string \<Rightarrow> nat" where
  "nat_of_digits s = foldl (\<lambda>acc c. 10 * acc + digit_val c) 0 s"

section \<open>Peer registry (peer\_manager.py)\<close>

text \<open>
  Rates and timestamps are Python floats; they are modelled as real numbers. The clock
  \<open>time.time()\<close> is an argument \<open>now\<close> of every operation that reads it. The lock
  serialises the operations and has no counterpart in a sequential model.
\<close>

record PeerStats =
  ip :: string
  port :: int
  downloaded :: int
  uploaded :: int
  last_download_time :: real
  last_upload_time :: real
  download_rate :: real
  upload_rate :: real
  is_choked_by_us :: bool
  is_choking_us :: bool
  is_interested_in_us :: bool
  we_are_interested :: bool
  connection_time :: real

definition PeerStats_init :: "string \<Rightarrow> int \<Rightarrow> real \<Rightarrow> PeerStats" where
  "PeerStats_init peer_ip peer_port now =
     \<lparr>ip = peer_ip, port = peer_port, downloaded = 0, uploaded = 0,
      last_download_time = now, last_upload_time = now,
      download_rate = 0, upload_rate = 0,
      is_choked_by_us = True, is_choking_us = True,
      is_interested_in_us = False, we_are_interested = False,
      connection_time = now\<rparr>"

definition update_downloaded :: "PeerStats \<Rightarrow> int \<Rightarrow> real \<Rightarrow> PeerStats" where
  "update_downloaded p bytes_count now =
     (let time_diff = now - last_download_time p;
          p1 = p\<lparr>downloaded := downloaded p + bytes_count\<rparr>;
          p2 = (if time_diff > 0
                then p1\<lparr>download_rate :=
                        0.8 * download_rate p1 + 0.2 * (of_int bytes_count / time_diff)\<rparr>
                else p1)
      in p2\<lparr>last_download_time := now\<rparr>)"

definition update_uploaded :: "PeerStats \<Rightarrow> int \<Rightarrow> real \<Rightarrow> PeerStats" where
  "update_uploaded p bytes_count now =
     (let time_diff = now - last_upload_time p;
          p1 = p\<lparr>uploaded := uploaded p + bytes_count\<rparr>;
          p2 = (if time_diff > 0
                then p1\<lparr>upload_rate :=
                        0.8 * upload_rate p1 + 0.2 * (of_int bytes_count / time_diff)\<rparr>
                else p1)
      in p2\<lparr>last_upload_time := now\<rparr>)"

definition make_peer_id :: "string \<Rightarrow> int \<Rightarrow> string" where
  "make_peer_id peer_ip peer_port = peer_ip @ '':'' @ str_int peer_port"

definition get_peer_id :: "PeerStats \<Rightarrow> string" where
  "get_peer_id p = make_peer_id (ip p) (port p)"

text \<open>
  The dictionary \<open>self.peers\<close> keeps insertion order, which \<open>values()\<close> follows: an
  association list with distinct keys.
\<close>

record PeerManager =
  peers :: "(string \<times> PeerStats) list"
  max_unchoked_peers :: int
  optimistic_unchoke_interval :: real
  last_optimistic_unchoke :: real
  total_downloaded :: int
  total_uploaded :: int
  start_time :: real

definition PeerManager_init :: "int \<Rightarrow> real \<Rightarrow> PeerManager" where
  "PeerManager_init k now =
     \<lparr>peers = [], max_unchoked_peers = k, optimistic_unchoke_interval = 30,
      last_optimistic_unchoke = now, total_downloaded = 0, total_uploaded = 0,
      start_time = now\<rparr>"

definition add_peer :: "PeerManager \<Rightarrow> string \<Rightarrow> int \<Rightarrow> real \<Rightarrow> PeerStats \<times> PeerManager" where
  "add_peer m peer_ip peer_port now =
     (let peer_id = make_peer_id peer_ip peer_port in
      case map_of (peers m) peer_id of
        None \<Rightarrow>
          (PeerStats_init peer_ip peer_port now,
           m\<lparr>peers := peers m @ [(peer_id, PeerStats_init peer_ip peer_port now)]\<rparr>)
      | Some p \<Rightarrow> (p, m))"

definition get_peer :: "PeerManager \<Rightarrow> string \<Rightarrow> int \<Rightarrow> PeerStats option" where
  "get_peer m peer_ip peer_port = map_of (peers m) (make_peer_id peer_ip peer_port)"

text \<open>
  \<open>if peer:\<close> tests the looked-up object for \<open>None\<close> (a \<open>PeerStats\<close> object is always
  true). The object is mutated in place; here the entry under its key is replaced.
\<close>

definition update_download :: "PeerManager \<Rightarrow> string \<Rightarrow> int \<Rightarrow> int \<Rightarrow> real \<Rightarrow> PeerManager" where
  "update_download m peer_ip peer_port bytes_count now =
     (case get_peer m peer_ip peer_port of
        None \<Rightarrow> m
      | Some peer \<Rightarrow>
          m\<lparr>peers := AList.update (make_peer_id peer_ip peer_port)
                        (update_downloaded peer bytes_count now) (peers m),
            total_downloaded := total_downloaded m + bytes_count\<rparr>)"

definition update_upload :: "PeerManager \<Rightarrow> string \<Rightarrow> int \<Rightarrow> int \<Rightarrow> real \<Rightarrow> PeerManager" where
  "update_upload m peer_ip peer_port bytes_count now =
     (case get_peer m peer_ip peer_port of
        None \<Rightarrow> m
      | Some peer \<Rightarrow>
          m\<lparr>peers := AList.update (make_peer_id peer_ip peer_port)
                        (update_uploaded peer bytes_count now) (peers m),
            total_uploaded := total_uploaded m + bytes_count\<rparr>)"

text \<open>Admitting a sequence of endpoints, each at its own time.\<close>

fun add_peers :: "PeerManager \<Rightarrow> (string \<times> int \<times> real) list \<Rightarrow> PeerManager" where
  "add_peers m [] = m"
| "add_peers m ((peer_ip, peer_port, now) # rest) =
     add_peers (snd (add_peer m peer_ip peer_port now)) rest"

subsection \<open>Choking re-evaluation\<close>

definition interested_peers :: "PeerManager \<Rightarrow> PeerStats list" where
  "interested_peers m =
     filter (\<lambda>p. is_interested_in_us p \<and> \<not> is_choking_us p) (map snd (peers m))"

text \<open>
  \<open>sorted(interested_peers, key=lambda p: p.download_rate, reverse=True)\<close>: Python's sort
  is stable also when reversed, so it is the stable sort by the negated rate.
\<close>

definition sorted_peers :: "PeerManager \<Rightarrow> PeerStats list" where
  "sorted_peers m = sort_key (\<lambda>p. - download_rate p) (interested_peers m)"

definition set_choke :: "string list \<Rightarrow> PeerStats \<Rightarrow> PeerStats" where
  "set_choke unchoked_ids peer = peer\<lparr>is_choked_by_us := get_peer_id peer \<notin> set unchoked_ids\<rparr>"

text \<open>
  \<open>random.choice(other_peers)\<close> takes its random index from the argument \<open>r\<close>. The
  returned list holds the registry's own objects, so it shows the flags as updated.
  \<open>p not in unchoked\<close> compares objects by identity; distinct registry entries are
  distinct records when every key is the peer id of its entry.
\<close>

definition recalculate_choking ::
  "PeerManager \<Rightarrow> real \<Rightarrow> nat \<Rightarrow> error + (PeerStats list \<times> PeerManager)" where
  "recalculate_choking m current_time r =
     (if interested_peers m = [] then Inr ([], m)
      else
        let unchoked = py_slice_to (sorted_peers m) (max_unchoked_peers m - 1);
            fill =
              (if current_time - last_optimistic_unchoke m > optimistic_unchoke_interval m
               then
                 (let other_peers = filter (\<lambda>p. p \<notin> set unchoked) (interested_peers m) in
                  if other_peers \<noteq> []
                  then Inr ([other_peers ! (r mod length other_peers)], current_time)
                  else Inr ([], last_optimistic_unchoke m))
               else
                 (if max_unchoked_peers m \<le> int (length (sorted_peers m))
                  then (case py_index (sorted_peers m) (max_unchoked_peers m - 1) of
                          Inl e \<Rightarrow> Inl e
                        | Inr p \<Rightarrow> Inr ([p], last_optimistic_unchoke m))
                  else Inr ([], last_optimistic_unchoke m)))
        in case fill of
             Inl e \<Rightarrow> Inl e
           | Inr (extra, stamp) \<Rightarrow>
               (let unchoked_ids = map get_peer_id (unchoked @ extra) in
                Inr (map (set_choke unchoked_ids) (unchoked @ extra),
                     m\<lparr>peers := map (\<lambda>(k, p). (k, set_choke unchoked_ids p)) (peers m),
                       last_optimistic_unchoke := stamp\<rparr>)))"

text \<open>
  The registry invariant: keys are distinct and each key is the peer id of its entry, as
  \<open>add_peer\<close> establishes.
\<close>

definition wf_registry :: "PeerManager \<Rightarrow> bool" where
  "wf_registry m \<longleftrightarrow>
     distinct (map fst (peers m)) \<and> list_all (\<lambda>(k, p). k = get_peer_id p) (peers m)"

definition endpoints :: "PeerManager \<Rightarrow> (string \<times> int) set" where
  "endpoints m = set (map (\<lambda>(k, p). (ip p, port p)) (peers m))"

definition top_peers :: "PeerManager \<Rightarrow> PeerStats list" where
  "top_peers m = take (nat (max_unchoked_peers m - 1)) (sorted_peers m)"

definition other_peers :: "PeerManager \<Rightarrow> PeerStats list" where
  "other_peers m = filter (\<lambda>p. p \<notin> set (top_peers m)) (interested_peers m)"

definition timer_elapsed :: "PeerManager \<Rightarrow> real \<Rightarrow> bool" where
  "timer_elapsed m current_time \<longleftrightarrow>
     current_time - last_optimistic_unchoke m > optimistic_unchoke_interval m"

definition example_registry :: PeerManager where
  "example_registry = snd (add_peer (PeerManager_init 4 0) ''10.0.0.1'' 6881 1)"

definition rate_order :: "PeerStats \<Rightarrow> PeerStats \<Rightarrow> bool" where
  "rate_order a b \<longleftrightarrow>
     download_rate a > download_rate b
     \<or> (download_rate a = download_rate b \<and> connection_time a \<le> connection_time b)"

definition fill_peer :: "PeerManager \<Rightarrow> real \<Rightarrow> nat \<Rightarrow> PeerStats list" where
  "fill_peer m current_time r =
     (if timer_elapsed m current_time
      then (if other_peers m = [] then []
            else [other_peers m ! (r mod length (other_peers m))])
      else (if max_unchoked_peers m \<le> int (length (sorted_peers m))
            then [sorted_peers m ! nat (max_unchoked_peers m - 1)]
            else []))"

definition candidate :: "string \<Rightarrow> int \<Rightarrow> real \<Rightarrow> real \<Rightarrow> PeerStats" where
  "candidate peer_ip peer_port rate now =
     (PeerStats_init peer_ip peer_port now)
       \<lparr>download_rate := rate, is_choking_us := False, is_interested_in_us := True\<rparr>"

definition trio_registry :: "int \<Rightarrow> PeerManager" where
  "trio_registry k =
     \<lparr>peers = [(''10.0.0.1:6881'', candidate ''10.0.0.1'' 6881 5 1),
               (''10.0.0.2:6881'', candidate ''10.0.0.2'' 6881 9 2),
               (''10.0.0.3:6881'', candidate ''10.0.0.3'' 6881 7 3)],
      max_unchoked_peers = k, optimistic_unchoke_interval = 30,
      last_optimistic_unchoke = 0, total_downloaded = 0, total_uploaded = 0,
      start_time = 0\<rparr>"

section \<open>Peer wire codec: handshake (peer\_protocol.py)\<close>

definition pstr :: bytes where
  "pstr = ''BitTorrent protocol''"

definition create_handshake :: "bytes \<Rightarrow> bytes \<Rightarrow> bytes" where
  "create_handshake info_hash peer_id =
     [char_of (length pstr)] @ pstr @ replicate 8 (char_of (0::nat)) @ info_hash @ peer_id"

record handshake =
  hs_info_hash :: bytes
  hs_peer_id :: bytes

definition parse_handshake :: "bytes \<Rightarrow> error + handshake" where
  "parse_handshake data =
     (if length data < 68 then Inl ValueError
      else if (of_char (data ! 0) :: nat) \<noteq> 19 then Inl ValueError
      else if slice 1 20 data \<noteq> ''BitTorrent protocol'' then Inl ValueError
      else Inr \<lparr>hs_info_hash = slice 28 48 data, hs_peer_id = slice 48 68 data\<rparr>)"

text \<open>
  The handshaking step of \<open>OptimizedDownloader.download_piece_from_peer\<close>, from the point
  where the 68 response bytes have been collected: the response is handed to
  \<open>parse_handshake\<close> and the parsed dictionary is dropped. The session's own
  \<open>info_hash\<close> is an argument because the session holds it; the source does not read it
  here. An exception leaves the session through the enclosing handler (the piece attempt
  returns \<open>None\<close>); it is the \<open>Inl\<close> result.
\<close>

definition handshake_step :: "bytes \<Rightarrow> bytes \<Rightarrow> error + unit" where
  "handshake_step info_hash response =
     (case parse_handshake response of
        Inl e \<Rightarrow> Inl e
      | Inr parsed \<Rightarrow> Inr ())"

section \<open>Peer wire codec: messages (peer\_protocol.py)\<close>

text \<open>
  \<open>struct.pack(">I", n)\<close> and \<open>struct.unpack(">I", b)[0]\<close>: a 32-bit unsigned integer in
  four bytes, most significant byte first. Packing a number that does not fit raises
  \<open>struct.error\<close>; \<open>bytes([i])\<close> raises \<open>ValueError\<close> unless \<open>i\<close> is in \<open>range(256)\<close>.
\<close>

definition pack_be32 :: "nat \<Rightarrow> bytes" where
  "pack_be32 n =
     [char_of (n div 16777216 mod 256), char_of (n div 65536 mod 256),
      char_of (n div 256 mod 256), char_of (n mod 256)]"

definition unpack_be32 :: "bytes \<Rightarrow> nat" where
  "unpack_be32 b = foldl (\<lambda>acc c. 256 * acc + of_char c) 0 b"

definition create_message :: "nat \<Rightarrow> bytes \<Rightarrow> error + bytes" where
  "create_message message_id payload =
     (if 4294967296 \<le> 1 + length payload then Inl StructError
      else if 256 \<le> message_id then Inl ValueError
      else Inr (pack_be32 (1 + length payload) @ [char_of message_id] @ payload))"

text \<open>
  \<open>parse_message\<close> returns the triple \<open>(message_id, payload, bytes_consumed)\<close>, with
  \<open>None\<close> as Python's \<open>None\<close>.
\<close>

definition parse_message :: "bytes \<Rightarrow> nat option \<times> bytes option \<times> nat" where
  "parse_message data =
     (if length data < 4 then (None, None, 0)
      else
        let len = unpack_be32 (slice 0 4 data) in
        if len = 0 then (None, Some [], 4)
        else if length data < 4 + len then (None, None, 0)
        else (Some (of_char (data ! 4)), Some (slice 5 (4 + len) data), 4 + len))"

text \<open>
  The accumulating buffer of the streaming parser. The wait loops of the downloaders
  append what the socket delivers to a buffer and then parse messages off its front until
  the parser consumes nothing:
  \<^verbatim>\<open>while True: msg_id, payload, consumed = parse_message(buffer)\<close>,
  \<^verbatim>\<open>if consumed == 0: break\<close>, \<^verbatim>\<open>buffer = buffer[consumed:]\<close>
  (they also leave the loop early at the message they wait for). \<open>drain\<close> is that inner
  loop without the early exit, returning the messages parsed and the buffer left;
  \<open>feed\<close> is the accumulation over the chunks received.
\<close>

function drain :: "bytes \<Rightarrow> (nat option \<times> bytes option) list \<times> bytes" where
  "drain buffer =
     (case parse_message buffer of
        (msg_id, payload, consumed) \<Rightarrow>
          if consumed = 0 then ([], buffer)
          else (case drain (drop consumed buffer) of
                  (msgs, rest) \<Rightarrow> ((msg_id, payload) # msgs, rest)))"
  by pat_completeness auto

termination
  by (relation "measure length")
    (auto simp add: parse_message_def Let_def split: if_splits)

declare drain.simps [simp del]

fun feed :: "bytes \<Rightarrow> bytes list \<Rightarrow> (nat option \<times> bytes option) list \<times> bytes" where
  "feed buffer [] = ([], buffer)"
| "feed buffer (data # chunks) =
     (case drain (buffer @ data) of
        (msgs, buffer') \<Rightarrow>
          (case feed buffer' chunks of
             (later, rest) \<Rightarrow> (msgs @ later, rest)))"

text \<open>A message on the wire: a keep-alive (four zero bytes) or an id with a payload.\<close>

datatype message = KeepAlive | Message nat bytes

fun valid_message :: "message \<Rightarrow> bool" where
  "valid_message KeepAlive = True"
| "valid_message (Message message_id payload) =
     (message_id < 256 \<and> 1 + length payload < 4294967296)"

fun wire :: "message \<Rightarrow> bytes" where
  "wire KeepAlive = pack_be32 0"
| "wire (Message message_id payload) =
     (case create_message message_id payload of Inr b \<Rightarrow> b | Inl e \<Rightarrow> [])"

fun parsed :: "message \<Rightarrow> nat option \<times> bytes option" where
  "parsed KeepAlive = (None, Some [])"
| "parsed (Message message_id payload) = (Some message_id, Some payload)"

definition sample_messages :: "message list" where
  "sample_messages = [Message 1 [], KeepAlive, Message 7 ''xyz'']"

definition sample_stream :: bytes where
  "sample_stream = concat (map wire sample_messages)"

section \<open>File layout (file\_manager.py)\<close>



text \<open>
  \<open>os.path.join\<close> and \<open>os.path.dirname\<close> of the POSIX path module: a component that
  starts with a slash discards what was joined before it; otherwise components are
  separated by one slash.
\<close>

definition path_join2 :: "string \<Rightarrow> string \<Rightarrow> string" where
  "path_join2 path b =
     (if take 1 b = ''/'' then b
      else if path = [] \<or> last path = CHR ''/'' then path @ b
      else path @ ''/'' @ b)"

definition path_join :: "string \<Rightarrow> string list \<Rightarrow> string" where
  "path_join a p = foldl path_join2 a p"


text \<open>
  The \<open>info\<close> dictionary as the file manager reads it: \<open>name\<close>, and either \<open>length\<close>
  (single file) or \<open>files\<close>, a list of dictionaries with \<open>path\<close> (a list of components)
  and \<open>length\<close>. The name and the path components are byte strings, decoded as UTF-8.
\<close>

record file_entry =
  fe_path :: "bytes list"
  fe_length :: int

record info_files =
  if_name :: bytes
  if_length :: "int option"
  if_files :: "file_entry list option"

record file_slot =
  fs_path :: string
  fs_length :: int
  fs_offset :: int

record FileManager =
  fm_base_output_dir :: string
  fm_is_multi_file :: bool
  fm_root_name :: string
  fm_files :: "file_slot list"
  fm_total_length :: int

text \<open>
  \<open>_parse_file_list\<close>: the components of an entry are decoded first; then
  \<open>os.path.join(*path_parts)\<close> with no component is a call without its first argument, a
  \<open>TypeError\<close>.
\<close>

fun parse_file_list :: "string \<Rightarrow> file_entry list \<Rightarrow> int \<Rightarrow> error + file_slot list" where
  "parse_file_list root_name [] current_offset = Inr []"
| "parse_file_list root_name (file_info # rest) current_offset =
     (case decode_all_utf8 (fe_path file_info) of
        Inl e \<Rightarrow> Inl e
      | Inr [] \<Rightarrow> Inl TypeError
      | Inr (part # parts) \<Rightarrow>
          (case parse_file_list root_name rest (current_offset + fe_length file_info) of
             Inl e \<Rightarrow> Inl e
           | Inr slots \<Rightarrow>
               Inr (\<lparr>fs_path = path_join root_name [path_join part parts],
                     fs_length = fe_length file_info,
                     fs_offset = current_offset\<rparr> # slots)))"

definition FileManager_init :: "info_files \<Rightarrow> string \<Rightarrow> error + FileManager" where
  "FileManager_init info base_output_dir =
     (case decode_utf8 (if_name info) of
        Inl e \<Rightarrow> Inl e
      | Inr root_name \<Rightarrow>
          (case if_files info of
             Some files \<Rightarrow>
               (case parse_file_list root_name files 0 of
                  Inl e \<Rightarrow> Inl e
                | Inr slots \<Rightarrow>
                    Inr \<lparr>fm_base_output_dir = base_output_dir, fm_is_multi_file = True,
                         fm_root_name = root_name, fm_files = slots,
                         fm_total_length = sum_list (map fs_length slots)\<rparr>)
           | None \<Rightarrow>
               (case if_length info of
                  None \<Rightarrow> Inl KeyError
                | Some n \<Rightarrow>
                    Inr \<lparr>fm_base_output_dir = base_output_dir, fm_is_multi_file = False,
                         fm_root_name = root_name,
                         fm_files = [\<lparr>fs_path = root_name, fs_length = n, fs_offset = 0\<rparr>],
                         fm_total_length = n\<rparr>)))"











section \<open>Bencode codec (bencode.py)\<close>

text \<open>
  The values the decoder returns and the encoder accepts. A Python dictionary keeps its
  keys distinct and in insertion order; it is an association list in that order.
\<close>

datatype bvalue =
    BInt int
  | BBytes bytes
  | BList "bvalue list"
  | BDict "(bytes \<times> bvalue) list"

subsection \<open>Python's \<open>int()\<close> on a decoded ASCII string\<close>

text \<open>
  \<open>int(int_bytes.decode("ascii"))\<close>: decoding fails on a byte above 127; \<open>int()\<close> strips
  ASCII whitespace on both sides, accepts one sign, and then requires decimal digits, with
  single underscores allowed between digits. Every failure is a \<open>ValueError\<close>
  (\<open>UnicodeDecodeError\<close> is one), which is \<open>None\<close> here. Converting between \<open>int\<close> and
  \<open>str\<close> is limited to \<open>sys.get_int_max_str_digits()\<close> decimal digits, 4300 unless the
  interpreter is configured otherwise: \<open>int()\<close> of more digits, leading zeros counted,
  and \<open>str()\<close> of an integer with more digits raise \<open>ValueError\<close>.
\<close>

definition int_max_str_digits :: nat where
  "int_max_str_digits = 4300"

definition py_str :: "int \<Rightarrow> error + string" where
  "py_str n =
     (if int_max_str_digits < length (str_nat (nat \<bar>n\<bar>)) then Inl ValueError
      else Inr (str_int n))"

definition is_space :: "char \<Rightarrow> bool" where
  "is_space c \<longleftrightarrow> c \<in> set [CHR 0x09, CHR 0x0A, CHR 0x0B, CHR 0x0C, CHR 0x0D, CHR 0x20]"

definition strip :: "string \<Rightarrow> string" where
  "strip s = rev (dropWhile is_space (rev (dropWhile is_space s)))"

fun digits_ok :: "bool \<Rightarrow> string \<Rightarrow> bool" where
  "digits_ok after_digit [] = after_digit"
| "digits_ok after_digit (c # cs) =
     (if is_digit c then digits_ok True cs
      else if c = CHR ''_'' \<and> after_digit then digits_ok False cs
      else False)"

definition py_int :: "bytes \<Rightarrow> int option" where
  "py_int b =
     (if \<not> list_all (\<lambda>c. (of_char c :: nat) < 128) b then None
      else
        let s = strip b;
            negative = (take 1 s = ''-'');
            digits = (if take 1 s = ''-'' \<or> take 1 s = ''+'' then drop 1 s else s)
        in if digits_ok False digits
              \<and> length (filter (\<lambda>c. c \<noteq> CHR ''_'') digits) \<le> int_max_str_digits
           then Some ((if negative then - 1 else 1) *
                      int (nat_of_digits (filter (\<lambda>c. c \<noteq> CHR ''_'') digits)))
           else None)"

subsection \<open>Decoder\<close>

text \<open>
  The decoder's cursor \<open>self.i\<close> is represented by the unread rest of the input,
  \<open>self.data[self.i:]\<close>: \<open>find\<close> from the cursor searches that rest, and the cursor is at
  the end when the rest is empty. Every \<open>BencodeError\<close> is \<open>Inl BencodeError\<close>. In
  \<open>_parse_int\<close> the \<open>ValueError\<close> of \<open>int()\<close> is caught and becomes a \<open>BencodeError\<close>; in
  \<open>_parse_bytestring\<close> the length is all digits, so \<open>int()\<close> can fail on the digit limit
  only, and that \<open>ValueError\<close> is not caught. The depth of the interpreter's call stack is
  not modelled.
\<close>

definition parse_int :: "bytes \<Rightarrow> error + int \<times> bytes" where
  "parse_int data =
     (if take 1 data \<noteq> ''i'' then Inl BencodeError
      else if CHR ''e'' \<notin> set (drop 1 data) then Inl BencodeError
      else
        let int_bytes = takeWhile (\<lambda>c. c \<noteq> CHR ''e'') (drop 1 data) in
        if int_bytes = [] then Inl BencodeError
        else if int_bytes = ''-0'' then Inl BencodeError
        else if take 1 int_bytes = ''0'' \<and> 1 < length int_bytes then Inl BencodeError
        else if take 1 int_bytes = ''-''
                \<and> (length int_bytes = 1 \<or> slice 1 2 int_bytes = ''0'')
             then Inl BencodeError
        else (case py_int int_bytes of
                None \<Rightarrow> Inl BencodeError
              | Some v \<Rightarrow> Inr (v, drop (length int_bytes + 2) data)))"

definition parse_bytestring :: "bytes \<Rightarrow> error + bytes \<times> bytes" where
  "parse_bytestring data =
     (if CHR '':'' \<notin> set data then Inl BencodeError
      else
        let len_bytes = takeWhile (\<lambda>c. c \<noteq> CHR '':'') data in
        if len_bytes = [] then Inl BencodeError
        else if \<not> list_all is_digit len_bytes then Inl BencodeError
        else if take 1 len_bytes = ''0'' \<and> 1 < length len_bytes then Inl BencodeError
        else if int_max_str_digits < length len_bytes then Inl ValueError
        else
          let n = nat_of_digits len_bytes;
              available = drop (length len_bytes + 1) data
          in if length available < n then Inl BencodeError
             else Inr (take n available, drop n available))"

text \<open>
  \<open>_parse_value\<close>, \<open>_parse_list\<close> and \<open>_parse_dict\<close> call each other; the two loops are
  \<open>parse_list_items\<close> and \<open>parse_dict_items\<close>, entered after the opening byte has been
  skipped, with the result built so far. The recursion is on a fuel argument that every
  call and every loop iteration decrements; \<open>decode\<close> supplies more fuel than any input
  of its length can use.
\<close>

fun parse_value :: "nat \<Rightarrow> bytes \<Rightarrow> error + bvalue \<times> bytes"
  and parse_list_items :: "nat \<Rightarrow> bytes \<Rightarrow> bvalue list \<Rightarrow> error + bvalue \<times> bytes"
  and parse_dict_items :: "nat \<Rightarrow> bytes \<Rightarrow> (bytes \<times> bvalue) list \<Rightarrow> error + bvalue \<times> bytes"
where
  "parse_value 0 data = Inl OutOfFuel"
| "parse_value (Suc fuel) data =
     (case data of
        [] \<Rightarrow> Inl BencodeError
      | c # rest \<Rightarrow>
          if c = CHR ''i'' then
            (case parse_int data of
               Inl e \<Rightarrow> Inl e
             | Inr (v, after) \<Rightarrow> Inr (BInt v, after))
          else if c = CHR ''l'' then parse_list_items fuel rest []
          else if c = CHR ''d'' then parse_dict_items fuel rest []
          else if is_digit c then
            (case parse_bytestring data of
               Inl e \<Rightarrow> Inl e
             | Inr (v, after) \<Rightarrow> Inr (BBytes v, after))
          else Inl BencodeError)"
| "parse_list_items 0 data result = Inl OutOfFuel"
| "parse_list_items (Suc fuel) data result =
     (case data of
        [] \<Rightarrow> Inl BencodeError
      | c # rest \<Rightarrow>
          if c = CHR ''e'' then Inr (BList result, rest)
          else
            (case parse_value fuel data of
               Inl e \<Rightarrow> Inl e
             | Inr (v, after) \<Rightarrow> parse_list_items fuel after (result @ [v])))"
| "parse_dict_items 0 data result = Inl OutOfFuel"
| "parse_dict_items (Suc fuel) data result =
     (case data of
        [] \<Rightarrow> Inl BencodeError
      | c # rest \<Rightarrow>
          if c = CHR ''e'' then Inr (BDict result, rest)
          else
            (case parse_bytestring data of
               Inl e \<Rightarrow> Inl e
             | Inr (key, after_key) \<Rightarrow>
                 (case parse_value fuel after_key of
                    Inl e \<Rightarrow> Inl e
                  | Inr (v, after) \<Rightarrow>
                      parse_dict_items fuel after (AList.update key v result))))"

definition decode_fuel :: "bytes \<Rightarrow> nat" where
  "decode_fuel data = 2 * length data + 2"

definition decode :: "bytes \<Rightarrow> error + bvalue" where
  "decode data =
     (case parse_value (decode_fuel data) data of
        Inl e \<Rightarrow> Inl e
      | Inr (v, rest) \<Rightarrow> if rest \<noteq> [] then Inl BencodeError else Inr v)"

subsection \<open>Encoder\<close>

text \<open>
  \<open>for key in sorted(obj.keys())\<close> with \<open>obj[key]\<close>: for distinct keys this walks the
  entries sorted by key. Byte strings compare lexicographically by byte value. The only
  exception \<open>encode\<close> can raise on these values is the \<open>ValueError\<close> of \<open>str()\<close>; the
  first one met ends the encoding, which is what \<open>collect\<close> returns.
\<close>

fun collect :: "(error + 'a) list \<Rightarrow> error + 'a list" where
  "collect [] = Inr []"
| "collect (x # xs) =
     (case x of
        Inl e \<Rightarrow> Inl e
      | Inr y \<Rightarrow> (case collect xs of Inl e \<Rightarrow> Inl e | Inr ys \<Rightarrow> Inr (y # ys)))"

fun encode :: "bvalue \<Rightarrow> error + bytes" where
  "encode (BInt n) =
     (case py_str n of Inl e \<Rightarrow> Inl e | Inr s \<Rightarrow> Inr (''i'' @ s @ ''e''))"
| "encode (BBytes b) =
     (case py_str (int (length b)) of Inl e \<Rightarrow> Inl e | Inr s \<Rightarrow> Inr (s @ '':'' @ b))"
| "encode (BList items) =
     (case collect (map encode items) of
        Inl e \<Rightarrow> Inl e
      | Inr parts \<Rightarrow> Inr (''l'' @ concat parts @ ''e''))"
| "encode (BDict entries) =
     (case collect (map (\<lambda>(key, v).
               case encode (BBytes key) of
                 Inl e \<Rightarrow> Inl e
               | Inr k \<Rightarrow> (case encode v of Inl e \<Rightarrow> Inl e | Inr x \<Rightarrow> Inr (k @ x)))
             (sort_key fst entries)) of
        Inl e \<Rightarrow> Inl e
      | Inr parts \<Rightarrow> Inr (''d'' @ concat parts @ ''e''))"

text \<open>
  The bytes \<open>encode\<close> returns when no \<open>str()\<close> fails.
\<close>

fun bencoding :: "bvalue \<Rightarrow> bytes" where
  "bencoding (BInt n) = ''i'' @ str_int n @ ''e''"
| "bencoding (BBytes b) = str_nat (length b) @ '':'' @ b"
| "bencoding (BList items) = ''l'' @ concat (map bencoding items) @ ''e''"
| "bencoding (BDict entries) =
     ''d'' @ concat (map (\<lambda>(key, v). bencoding (BBytes key) @ bencoding v)
                     (sort_key fst entries)) @ ''e''"

text \<open>
  Values as the decoder builds them: every dictionary has distinct keys, and every
  integer and every length of a byte string has at most \<open>int_max_str_digits\<close> digits.
  Python's \<open>==\<close> on such values ignores the order of dictionary entries. \<open>key_order\<close>
  puts the entries of every dictionary in the order of their keys.
\<close>

fun decodable :: "bvalue \<Rightarrow> bool" where
  "decodable (BInt n) = (length (str_nat (nat \<bar>n\<bar>)) \<le> int_max_str_digits)"
| "decodable (BBytes b) = (length (str_nat (length b)) \<le> int_max_str_digits)"
| "decodable (BList items) = list_all decodable items"
| "decodable (BDict entries) =
     (distinct (map fst entries)
      \<and> list_all (\<lambda>(key, v). decodable (BBytes key) \<and> decodable v) entries)"

fun py_eq :: "bvalue \<Rightarrow> bvalue \<Rightarrow> bool" where
  "py_eq (BInt a) (BInt b) = (a = b)"
| "py_eq (BBytes a) (BBytes b) = (a = b)"
| "py_eq (BList xs) (BList ys) = list_all2 py_eq xs ys"
| "py_eq (BDict xs) (BDict ys) =
     (length xs = length ys \<and>
      list_all (\<lambda>(key, v). case map_of ys key of None \<Rightarrow> False | Some w \<Rightarrow> py_eq v w) xs)"
| "py_eq _ _ = False"

fun key_order :: "bvalue \<Rightarrow> bvalue" where
  "key_order (BInt n) = BInt n"
| "key_order (BBytes b) = BBytes b"
| "key_order (BList items) = BList (map key_order items)"
| "key_order (BDict entries) =
     BDict (map (\<lambda>(key, v). (key, key_order v)) (sort_key fst entries))"

text \<open>
  \<open>calculate_info_hash\<close> (tracker\_http.py). SHA-1 comes from \<open>hashlib\<close>; it is an
  argument.
\<close>

definition calculate_info_hash :: "(bytes \<Rightarrow> bytes) \<Rightarrow> bvalue \<Rightarrow> error + bytes" where
  "calculate_info_hash sha1 info_dict =
     (case encode info_dict of
        Inl e \<Rightarrow> Inl e
      | Inr bencoded \<Rightarrow> Inr (sha1 bencoded))"

section \<open>Tracker client and downloader (tracker\_http.py, download\_optimized.py)\<close>

type_synonym peer = "string \<times> int"









subsection \<open>Piece verification\<close>

text \<open>
  The part of the downloader's state that piece verification reads and writes.
  \<open>download_piece_from_peer\<close> is the network: for one call of
  \<open>download_and_verify_piece\<close> it is a function from the peer tried to the bytes
  returned, \<open>None\<close> for the \<open>None\<close> it returns on any failure. SHA-1 is an argument.
\<close>

record downloader =
  pieces_hashes :: bytes
  peers_list :: "peer list"
  pieces_data :: "(nat \<times> bytes) list"
  pieces_downloaded :: "nat set"

definition expected_hash :: "downloader \<Rightarrow> nat \<Rightarrow> bytes" where
  "expected_hash st piece_idx = slice (piece_idx * 20) ((piece_idx + 1) * 20) (pieces_hashes st)"

fun try_peers ::
  "(bytes \<Rightarrow> bytes) \<Rightarrow> (peer \<Rightarrow> bytes option) \<Rightarrow> bytes \<Rightarrow> peer \<Rightarrow> peer list \<Rightarrow> peer list \<Rightarrow>
     bytes option" where
  "try_peers sha1 download_piece_from_peer expected peer first3 [] = None"
| "try_peers sha1 download_piece_from_peer expected peer first3 (attempt_peer # rest) =
     (if attempt_peer = peer \<or> attempt_peer \<in> set first3 then
        (case download_piece_from_peer attempt_peer of
           None \<Rightarrow> try_peers sha1 download_piece_from_peer expected peer first3 rest
         | Some piece_data \<Rightarrow>
             if piece_data \<noteq> [] \<and> sha1 piece_data = expected then Some piece_data
             else try_peers sha1 download_piece_from_peer expected peer first3 rest)
      else try_peers sha1 download_piece_from_peer expected peer first3 rest)"

definition download_and_verify_piece ::
  "(bytes \<Rightarrow> bytes) \<Rightarrow> (peer \<Rightarrow> bytes option) \<Rightarrow> downloader \<Rightarrow> peer \<Rightarrow> nat \<Rightarrow>
     bool \<times> downloader" where
  "download_and_verify_piece sha1 download_piece_from_peer st peer piece_idx =
     (case try_peers sha1 download_piece_from_peer (expected_hash st piece_idx) peer
             (take 3 (peers_list st)) (peers_list st) of
        Some piece_data \<Rightarrow>
          (True, st\<lparr>pieces_data := AList.update piece_idx piece_data (pieces_data st),
                    pieces_downloaded := insert piece_idx (pieces_downloaded st)\<rparr>)
      | None \<Rightarrow> (False, st))"

text \<open>
  \<open>save_file\<close>: the successive \<open>f.write\<close> calls on the freshly opened output file.
\<close>

definition save_file :: "downloader \<Rightarrow> bytes list" where
  "save_file st = map snd (sort_key fst (pieces_data st))"

text \<open>
  A run: the worker pool executes calls of \<open>download_and_verify_piece\<close>, each committing
  under the lock, so the commits happen in some order. A run is any list of calls, each
  with the peer, the piece index and the network's behaviour during that call.
\<close>

fun run_pieces ::
  "(bytes \<Rightarrow> bytes) \<Rightarrow> downloader \<Rightarrow> (peer \<times> nat \<times> (peer \<Rightarrow> bytes option)) list \<Rightarrow> downloader" where
  "run_pieces sha1 st [] = st"
| "run_pieces sha1 st ((peer, piece_idx, network) # calls) =
     run_pieces sha1 (snd (download_and_verify_piece sha1 network st peer piece_idx)) calls"

definition downloader_init :: "bytes \<Rightarrow> peer list \<Rightarrow> downloader" where
  "downloader_init hashes admitted =
     \<lparr>pieces_hashes = hashes, peers_list = admitted, pieces_data = [], pieces_downloaded = {}\<rparr>"

definition verified :: "(bytes \<Rightarrow> bytes) \<Rightarrow> downloader \<Rightarrow> bool" where
  "verified sha1 st \<longleftrightarrow>
     list_all (\<lambda>(piece_idx, piece_data). sha1 piece_data = expected_hash st piece_idx)
       (pieces_data st)"

definition toy_digest :: "bytes \<Rightarrow> bytes" where
  "toy_digest b = replicate 20 (case b of [] \<Rightarrow> CHR ''0'' | c # cs \<Rightarrow> c)"

definition toy_network :: "peer \<Rightarrow> bytes option" where
  "toy_network p = (if p = (''10.0.0.1'', 6881) then Some ''bad'' else Some ''good'')"

definition toy_run :: downloader where
  "toy_run =
     run_pieces toy_digest
       (downloader_init (replicate 20 (CHR ''g'')) [(''10.0.0.1'', 6881), (''10.0.0.2'', 6881)])
       [((''10.0.0.1'', 6881), 0, toy_network)]"




section \<open>Facts about decimal rendering\<close>

lemma digit_cases:
  assumes "d < (10::nat)"
  obtains "d = 0" | "d = 1" | "d = 2" | "d = 3" | "d = 4" | "d = 5" | "d = 6" | "d = 7"
    | "d = 8" | "d = 9"
proof -
  from assms have "d = 0 \<or> d = 1 \<or> d = 2 \<or> d = 3 \<or> d = 4 \<or> d = 5 \<or> d = 6 \<or> d = 7
      \<or> d = 8 \<or> d = 9"
    by arith
  then show thesis using that by blast
qed

lemma of_char_digit_char: "d < 10 \<Longrightarrow> (of_char (digit_char d) :: nat) = 48 + d"
  by (erule digit_cases) (simp_all add: digit_char_def)

lemma is_digit_digit_char: "d < 10 \<Longrightarrow> is_digit (digit_char d)"
  by (simp add: is_digit_def of_char_digit_char)

lemma digit_val_digit_char: "d < 10 \<Longrightarrow> digit_val (digit_char d) = d"
  by (simp add: digit_val_def of_char_digit_char)

lemma str_nat_digits: "c \<in> set (str_nat n) \<Longrightarrow> is_digit c"
proof (induction n arbitrary: c rule: str_nat.induct)
  case (1 n)
  show ?case
  proof (cases "n < 10")
    case True
    with "1.prems" show ?thesis
      by (simp add: str_nat.simps [of n] is_digit_digit_char)
  next
    case False
    with "1.prems" "1.IH" show ?thesis
      by (auto simp add: str_nat.simps [of n] is_digit_digit_char)
  qed
qed

lemma str_nat_nonempty: "str_nat n \<noteq> []"
  by (subst str_nat.simps) simp

lemma nat_of_digits_snoc: "nat_of_digits (s @ [c]) = 10 * nat_of_digits s + digit_val c"
  by (simp add: nat_of_digits_def)

lemma nat_of_digits_str_nat: "nat_of_digits (str_nat n) = n"
proof (induction n rule: str_nat.induct)
  case (1 n)
  show ?case
  proof (cases "n < 10")
    case True
    then show ?thesis
      by (simp add: str_nat.simps [of n] nat_of_digits_def digit_val_digit_char)
  next
    case False
    with "1.IH" show ?thesis
      by (simp add: str_nat.simps [of n] nat_of_digits_snoc digit_val_digit_char)
  qed
qed

lemma str_nat_inj: "str_nat a = str_nat b \<Longrightarrow> a = b"
  by (metis nat_of_digits_str_nat)

lemma minus_not_digit: "\<not> is_digit (CHR ''-'')" "\<not> is_digit (CHR '':'')" "\<not> is_digit (CHR ''e'')"
  by (simp_all add: is_digit_def)

lemma hd_str_nat_digit: "is_digit (hd (str_nat n))"
  using str_nat_digits [of "hd (str_nat n)" n] str_nat_nonempty [of n] by simp

lemma str_int_inj: "str_int a = str_int b \<Longrightarrow> a = b"
proof -
  assume eq: "str_int a = str_int b"
  have no_minus: "\<And>n. str_nat n \<noteq> CHR ''-'' # s" for s
    using hd_str_nat_digit minus_not_digit(1) by (metis list.sel(1))
  show ?thesis
  proof (cases "a < 0"; cases "b < 0")
    assume "a < 0" "b < 0"
    with eq have "nat (- a) = nat (- b)" by (simp add: str_int_def str_nat_inj)
    with \<open>a < 0\<close> \<open>b < 0\<close> show ?thesis by simp
  next
    assume "a < 0" "\<not> b < 0"
    with eq no_minus show ?thesis by (simp add: str_int_def) metis
  next
    assume "\<not> a < 0" "b < 0"
    with eq no_minus show ?thesis by (simp add: str_int_def)
  next
    assume "\<not> a < 0" "\<not> b < 0"
    with eq have "nat a = nat b" by (simp add: str_int_def str_nat_inj)
    with \<open>\<not> a < 0\<close> \<open>\<not> b < 0\<close> show ?thesis by simp
  qed
qed

lemma colon_notin_str_int: "CHR '':'' \<notin> set (str_int i)"
  using str_nat_digits minus_not_digit(2) by (auto simp add: str_int_def)

lemma split_at_last:
  assumes "xs @ c # s = ys @ c # t" "c \<notin> set s" "c \<notin> set t"
  shows "xs = ys \<and> s = t"
  using assms
  by (auto simp add: append_eq_append_conv2 append_eq_Cons_conv Cons_eq_append_conv)

lemma make_peer_id_inj:
  "make_peer_id a p = make_peer_id b q \<Longrightarrow> a = b \<and> p = q"
  using split_at_last [of a "CHR '':''" "str_int p" b "str_int q"]
  by (auto simp add: make_peer_id_def colon_notin_str_int dest: str_int_inj)

section \<open>Registry updates\<close>

lemma wf_registry_key:
  "wf_registry m \<Longrightarrow> (k, p) \<in> set (peers m) \<Longrightarrow> k = make_peer_id (ip p) (port p)"
  by (auto simp add: wf_registry_def list_all_iff get_peer_id_def)

lemma get_peer_None_iff:
  assumes "wf_registry m"
  shows "get_peer m a b = None \<longleftrightarrow> (a, b) \<notin> endpoints m"
proof
  assume "get_peer m a b = None"
  then have nk: "make_peer_id a b \<notin> fst ` set (peers m)"
    by (simp add: get_peer_def map_of_eq_None_iff)
  show "(a, b) \<notin> endpoints m"
  proof
    assume "(a, b) \<in> endpoints m"
    then obtain k p where kp: "(k, p) \<in> set (peers m)" "ip p = a" "port p = b"
      by (auto simp add: endpoints_def)
    with wf_registry_key [OF assms kp(1)] have "(make_peer_id a b, p) \<in> set (peers m)"
      by simp
    with nk show False by force
  qed
next
  assume ne: "(a, b) \<notin> endpoints m"
  have "make_peer_id a b \<notin> fst ` set (peers m)"
  proof
    assume "make_peer_id a b \<in> fst ` set (peers m)"
    then obtain p where kp: "(make_peer_id a b, p) \<in> set (peers m)" by auto
    from wf_registry_key [OF assms kp] have "a = ip p \<and> b = port p"
      by (rule make_peer_id_inj)
    with kp ne show False by (force simp add: endpoints_def)
  qed
  then show "get_peer m a b = None"
    by (simp add: get_peer_def map_of_eq_None_iff)
qed

lemma map_of_update_alist:
  "map_of (AList.update k v al) k' = (if k' = k then Some v else map_of al k')"
  by (simp add: update_conv')

lemma update_downloaded_frame:
  "(update_downloaded p n now)\<lparr>downloaded := downloaded p, download_rate := download_rate p,
       last_download_time := last_download_time p\<rparr> = p"
  by (simp add: update_downloaded_def Let_def)

lemma update_uploaded_frame:
  "(update_uploaded p n now)\<lparr>uploaded := uploaded p, upload_rate := upload_rate p,
       last_upload_time := last_upload_time p\<rparr> = p"
  by (simp add: update_uploaded_def Let_def)

lemma keys_update_present:
  "map_of al k = Some v \<Longrightarrow> map fst (AList.update k w al) = map fst al"
  by (induction al) (auto split: if_splits)

text \<open>
  Claim C10: for an endpoint that was never admitted, \<open>update_download\<close> and
  \<open>update_upload\<close> return the manager unchanged (the model has no error branch because
  the source has none: the only division is guarded by \<open>time_diff > 0\<close>). For a known
  endpoint the key order is kept, only the entry under that endpoint's key changes, the
  change is confined to its three download (upload) statistics, and of the manager's
  other fields only \<open>total_downloaded\<close> (\<open>total_uploaded\<close>) changes, by the byte count.
\<close>

theorem update_download_frame:
  assumes wf: "wf_registry m"
  shows "((a, b) \<notin> endpoints m \<longrightarrow>
            update_download m a b n now = m \<and> update_upload m a b n now = m)
       \<and> (\<forall>p. get_peer m a b = Some p \<longrightarrow>
            (let d = update_download m a b n now; u = update_upload m a b n now;
                 k = make_peer_id a b
             in map fst (peers d) = map fst (peers m)
              \<and> (\<forall>k'. map_of (peers d) k' =
                        (if k' = k then Some (update_downloaded p n now) else map_of (peers m) k'))
              \<and> (update_downloaded p n now)\<lparr>downloaded := downloaded p,
                    download_rate := download_rate p,
                    last_download_time := last_download_time p\<rparr> = p
              \<and> downloaded (update_downloaded p n now) = downloaded p + n
              \<and> d = m\<lparr>peers := peers d, total_downloaded := total_downloaded m + n\<rparr>
              \<and> map fst (peers u) = map fst (peers m)
              \<and> (\<forall>k'. map_of (peers u) k' =
                        (if k' = k then Some (update_uploaded p n now) else map_of (peers m) k'))
              \<and> (update_uploaded p n now)\<lparr>uploaded := uploaded p,
                    upload_rate := upload_rate p,
                    last_upload_time := last_upload_time p\<rparr> = p
              \<and> uploaded (update_uploaded p n now) = uploaded p + n
              \<and> u = m\<lparr>peers := peers u, total_uploaded := total_uploaded m + n\<rparr>))"
proof (rule conjI; (intro impI allI)?)
  assume "(a, b) \<notin> endpoints m"
  then have "get_peer m a b = None"
    using get_peer_None_iff [OF wf] by simp
  then show "update_download m a b n now = m \<and> update_upload m a b n now = m"
    by (simp add: update_download_def update_upload_def)
next
  fix p
  assume known: "get_peer m a b = Some p"
  then have look: "map_of (peers m) (make_peer_id a b) = Some p"
    by (simp add: get_peer_def)
  have dl: "downloaded (update_downloaded p n now) = downloaded p + n"
    by (simp add: update_downloaded_def Let_def)
  have ul: "uploaded (update_uploaded p n now) = uploaded p + n"
    by (simp add: update_uploaded_def Let_def)
  show "let d = update_download m a b n now; u = update_upload m a b n now;
            k = make_peer_id a b
        in map fst (peers d) = map fst (peers m)
         \<and> (\<forall>k'. map_of (peers d) k' =
                   (if k' = k then Some (update_downloaded p n now) else map_of (peers m) k'))
         \<and> (update_downloaded p n now)\<lparr>downloaded := downloaded p,
               download_rate := download_rate p,
               last_download_time := last_download_time p\<rparr> = p
         \<and> downloaded (update_downloaded p n now) = downloaded p + n
         \<and> d = m\<lparr>peers := peers d, total_downloaded := total_downloaded m + n\<rparr>
         \<and> map fst (peers u) = map fst (peers m)
         \<and> (\<forall>k'. map_of (peers u) k' =
                   (if k' = k then Some (update_uploaded p n now) else map_of (peers m) k'))
         \<and> (update_uploaded p n now)\<lparr>uploaded := uploaded p,
               upload_rate := upload_rate p,
               last_upload_time := last_upload_time p\<rparr> = p
         \<and> uploaded (update_uploaded p n now) = uploaded p + n
         \<and> u = m\<lparr>peers := peers u, total_uploaded := total_uploaded m + n\<rparr>"
    unfolding Let_def update_download_def update_upload_def known option.case
    using keys_update_present [OF look] dl ul
    by (simp add: map_of_update_alist update_downloaded_frame update_uploaded_frame)
qed

lemma str_int_6881: "str_int 6881 = ''6881''"
  by (simp add: str_int_def str_nat.simps digit_char_def)

lemma example_registry_peers: "peers example_registry = [(''10.0.0.1:6881'', PeerStats_init ''10.0.0.1'' 6881 1)]"
  by (simp add: example_registry_def add_peer_def PeerManager_init_def make_peer_id_def str_int_6881)

lemma example_registry_wf: "wf_registry example_registry"
  by (simp add: wf_registry_def example_registry_peers get_peer_id_def make_peer_id_def str_int_6881 PeerStats_init_def)

lemma example_registry_unknown: "(''10.0.0.2'', 6881) \<notin> endpoints example_registry"
  by (simp add: endpoints_def example_registry_peers PeerStats_init_def)

lemma example_registry_known: "get_peer example_registry ''10.0.0.1'' 6881 = Some (PeerStats_init ''10.0.0.1'' 6881 1)"
  by (simp add: get_peer_def example_registry_peers make_peer_id_def str_int_6881)

theorem update_download_frame_witness:
  "wf_registry example_registry
   \<and> (''10.0.0.2'', 6881) \<notin> endpoints example_registry
   \<and> update_download example_registry ''10.0.0.2'' 6881 100 5 = example_registry
   \<and> get_peer example_registry ''10.0.0.1'' 6881 = Some (PeerStats_init ''10.0.0.1'' 6881 1)
   \<and> total_downloaded (update_download example_registry ''10.0.0.1'' 6881 100 5) = 100
   \<and> total_uploaded (update_download example_registry ''10.0.0.1'' 6881 100 5) = 0"
proof -
  note unknown = update_download_frame [OF example_registry_wf, of "''10.0.0.2''" 6881 100 5, THEN conjunct1, rule_format, OF example_registry_unknown]
  note known = update_download_frame [OF example_registry_wf, of "''10.0.0.1''" 6881 100 5, THEN conjunct2, rule_format, OF example_registry_known]
  have a: "update_download example_registry ''10.0.0.2'' 6881 100 5 = example_registry"
    using unknown by (rule conjunct1)
  have eq: "update_download example_registry ''10.0.0.1'' 6881 100 5 =
          example_registry\<lparr>peers := peers (update_download example_registry ''10.0.0.1'' 6881 100 5),
             total_downloaded := total_downloaded example_registry + 100\<rparr>"
    using known unfolding Let_def by (elim conjE)
  have b: "total_downloaded (update_download example_registry ''10.0.0.1'' 6881 100 5) = 100"
    by (subst eq) (simp add: example_registry_def add_peer_def PeerManager_init_def)
  have c: "total_uploaded (update_download example_registry ''10.0.0.1'' 6881 100 5) = 0"
    by (subst eq) (simp add: example_registry_def add_peer_def PeerManager_init_def)
  from example_registry_wf example_registry_unknown example_registry_known a b c show ?thesis by (intro conjI)
qed

lemma insort_rate_order:
  assumes "sorted_wrt rate_order xs" "\<forall>y\<in>set xs. connection_time x \<le> connection_time y"
  shows "sorted_wrt rate_order (insort_key (\<lambda>p. - download_rate p) x xs)"
  using assms
proof (induction xs)
  case Nil
  then show ?case by simp
next
  case (Cons y ys)
  show ?case
  proof (cases "download_rate y \<le> download_rate x")
    case True
    have "rate_order x z" if "z \<in> set (y # ys)" for z
    proof -
      have "download_rate z \<le> download_rate y"
        using that Cons.prems(1) by (auto simp add: rate_order_def)
      with True that Cons.prems(2) show ?thesis
        by (auto simp add: rate_order_def)
    qed
    with True Cons.prems(1) show ?thesis by simp
  next
    case False
    then have "rate_order y x" by (simp add: rate_order_def)
    with False Cons show ?thesis by (auto simp add: set_insort_key)
  qed
qed

lemma sort_key_rate_order:
  "sorted (map connection_time xs) \<Longrightarrow>
     sorted_wrt rate_order (sort_key (\<lambda>p. - download_rate p) xs)"
proof (induction xs)
  case Nil
  then show ?case by simp
next
  case (Cons x xs)
  then show ?case
    by (simp add: insort_rate_order)
qed

lemma sorted_peers_rate_order:
  assumes "sorted (map (connection_time \<circ> snd) (peers m))"
  shows "sorted_wrt rate_order (sorted_peers m)"
proof -
  from assms have "sorted (map connection_time (map snd (peers m)))" by simp
  then have "sorted (map connection_time (interested_peers m))"
    unfolding interested_peers_def by (rule sorted_filter)
  then show ?thesis
    unfolding sorted_peers_def by (rule sort_key_rate_order)
qed

lemma sorted_peers_descending:
  "sorted_wrt (\<lambda>a b. download_rate b \<le> download_rate a) (sorted_peers m)"
proof -
  have "sorted (map (\<lambda>p. - download_rate p) (sorted_peers m))"
    unfolding sorted_peers_def by (rule sorted_sort_key)
  then show ?thesis
    by (simp add: sorted_map)
qed

lemma mset_sorted_peers: "mset (sorted_peers m) = mset (interested_peers m)"
  by (simp add: sorted_peers_def)

lemma set_sorted_peers: "set (sorted_peers m) = set (interested_peers m)"
  by (simp add: sorted_peers_def)

lemma set_interested_peers:
  "set (interested_peers m) =
     {p \<in> snd ` set (peers m). is_interested_in_us p \<and> \<not> is_choking_us p}"
  by (auto simp add: interested_peers_def)

lemma set_top_peers: "set (top_peers m) \<subseteq> set (interested_peers m)"
  using set_take_subset [of "nat (max_unchoked_peers m - 1)" "sorted_peers m"]
  by (simp add: top_peers_def set_sorted_peers)

lemma set_other_peers: "set (other_peers m) = set (interested_peers m) - set (top_peers m)"
  by (auto simp add: other_peers_def)

lemma wf_registry_ids:
  assumes "wf_registry m"
  shows "distinct (map get_peer_id (map snd (peers m)))"
proof -
  from assms have "map fst (peers m) = map get_peer_id (map snd (peers m))"
    by (auto simp add: wf_registry_def list_all_iff)
  with assms show ?thesis by (simp add: wf_registry_def)
qed

lemma wf_registry_inj:
  assumes "wf_registry m"
  shows "inj_on get_peer_id (snd ` set (peers m))"
proof -
  have "inj_on get_peer_id (set (map snd (peers m)))"
    using wf_registry_ids [OF assms] by (simp only: distinct_map)
  then show ?thesis by simp
qed

lemma distinct_sorted_peers:
  assumes "wf_registry m"
  shows "distinct (sorted_peers m)"
proof -
  from wf_registry_ids [OF assms] have "distinct (map snd (peers m))"
    by (simp only: distinct_map)
  then show ?thesis by (simp add: sorted_peers_def interested_peers_def)
qed

lemma nth_notin_take:
  assumes "distinct xs" "k < length xs"
  shows "xs ! k \<notin> set (take k xs)"
proof
  assume "xs ! k \<in> set (take k xs)"
  then obtain i where i: "i < k" "take k xs ! i = xs ! k"
    using assms(2) by (auto simp add: in_set_conv_nth)
  then have "xs ! i = xs ! k" by simp
  with assms i(1) show False by (simp add: nth_eq_iff_index_eq)
qed

lemma set_fill_peer:
  assumes "wf_registry m" "1 \<le> max_unchoked_peers m"
  shows "set (fill_peer m now r) \<subseteq> set (interested_peers m) - set (top_peers m)"
proof (cases "timer_elapsed m now")
  case True
  show ?thesis
  proof (cases "other_peers m = []")
    case True
    with \<open>timer_elapsed m now\<close> show ?thesis by (simp add: fill_peer_def)
  next
    case False
    then have "other_peers m ! (r mod length (other_peers m)) \<in> set (other_peers m)"
      by simp
    with False \<open>timer_elapsed m now\<close> show ?thesis
      by (simp add: fill_peer_def set_other_peers)
  qed
next
  case False
  show ?thesis
  proof (cases "max_unchoked_peers m \<le> int (length (sorted_peers m))")
    case le: True
    define k where "k = nat (max_unchoked_peers m - 1)"
    from le assms(2) have k: "k < length (sorted_peers m)" by (simp add: k_def)
    have "sorted_peers m ! k \<notin> set (top_peers m)"
      unfolding top_peers_def k_def [symmetric]
      using distinct_sorted_peers [OF assms(1)] k by (rule nth_notin_take)
    moreover have "sorted_peers m ! k \<in> set (interested_peers m)"
      using k nth_mem [of k "sorted_peers m"] by (simp add: set_sorted_peers)
    ultimately show ?thesis
      using le False by (simp add: fill_peer_def k_def)
  next
    case False
    with \<open>\<not> timer_elapsed m now\<close> show ?thesis by (simp add: fill_peer_def)
  qed
qed

lemma set_choke_selected:
  "map (set_choke (map get_peer_id sel)) sel = map (\<lambda>p. p\<lparr>is_choked_by_us := False\<rparr>) sel"
  by (simp add: set_choke_def)

lemma set_choke_registry:
  assumes "wf_registry m" "set sel \<subseteq> snd ` set (peers m)"
  shows "map (\<lambda>(k, p). (k, set_choke (map get_peer_id sel) p)) (peers m) =
         map (\<lambda>(k, p). (k, p\<lparr>is_choked_by_us := p \<notin> set sel\<rparr>)) (peers m)"
proof (rule map_cong [OF refl])
  fix x
  assume x: "x \<in> set (peers m)"
  obtain k p where kp: "x = (k, p)" by (cases x)
  with x have p: "p \<in> snd ` set (peers m)" by force
  have "get_peer_id p \<in> get_peer_id ` set sel \<longleftrightarrow> p \<in> set sel"
    using inj_on_image_mem_iff [OF wf_registry_inj [OF assms(1)] p assms(2)] .
  then show "(case x of (k, p) \<Rightarrow> (k, set_choke (map get_peer_id sel) p)) =
             (case x of (k, p) \<Rightarrow> (k, p\<lparr>is_choked_by_us := p \<notin> set sel\<rparr>))"
    by (simp add: kp set_choke_def)
qed

lemma choke_commit:
  assumes "wf_registry m" "set sel \<subseteq> snd ` set (peers m)"
  shows "Inr (map (set_choke (map get_peer_id sel)) sel,
              m\<lparr>peers := map (\<lambda>(k, p). (k, set_choke (map get_peer_id sel) p)) (peers m),
                last_optimistic_unchoke := stamp\<rparr>) =
         (Inr (map (\<lambda>p. p\<lparr>is_choked_by_us := False\<rparr>) sel,
              m\<lparr>peers := map (\<lambda>(k, p). (k, p\<lparr>is_choked_by_us := p \<notin> set sel\<rparr>)) (peers m),
                last_optimistic_unchoke := stamp\<rparr>) :: error + PeerStats list \<times> PeerManager)"
  by (simp only: set_choke_selected set_choke_registry [OF assms])

lemma recalculate_choking_raw:
  assumes K: "1 \<le> max_unchoked_peers m" and ne: "interested_peers m \<noteq> []"
  shows "recalculate_choking m now r =
      Inr (map (set_choke (map get_peer_id (top_peers m @ fill_peer m now r)))
             (top_peers m @ fill_peer m now r),
           m\<lparr>peers := map (\<lambda>(k, p). (k, set_choke (map get_peer_id
                                   (top_peers m @ fill_peer m now r)) p)) (peers m),
             last_optimistic_unchoke :=
               (if timer_elapsed m now \<and> other_peers m \<noteq> [] then now
                else last_optimistic_unchoke m)\<rparr>)"
proof -
  have slice: "py_slice_to (sorted_peers m) (max_unchoked_peers m - 1) = top_peers m"
    using K by (simp add: py_slice_to_def top_peers_def)
  have idx: "max_unchoked_peers m \<le> int (length (sorted_peers m)) \<Longrightarrow>
      py_index (sorted_peers m) (max_unchoked_peers m - 1) =
        Inr (sorted_peers m ! nat (max_unchoked_peers m - 1))"
    using K by (simp add: py_index_def)
  have o: "filter (\<lambda>p. p \<notin> set (top_peers m)) (interested_peers m) = other_peers m"
    by (simp add: other_peers_def)
  show ?thesis
  proof (cases "timer_elapsed m now")
    case True
    then have el: "optimistic_unchoke_interval m < now - last_optimistic_unchoke m"
      by (simp add: timer_elapsed_def)
    show ?thesis
    proof (cases "other_peers m = []")
      case em: True
      then have f: "fill_peer m now r = []"
        using True by (simp add: fill_peer_def)
      show ?thesis
        by (simp add: recalculate_choking_def Let_def ne slice el o f em True)
    next
      case False
      then have f: "fill_peer m now r = [other_peers m ! (r mod length (other_peers m))]"
        using True by (simp add: fill_peer_def)
      show ?thesis
        using False by (simp add: recalculate_choking_def Let_def ne slice el o f True)
    qed
  next
    case False
    then have el: "\<not> optimistic_unchoke_interval m < now - last_optimistic_unchoke m"
      by (simp add: timer_elapsed_def)
    show ?thesis
    proof (cases "max_unchoked_peers m \<le> int (length (sorted_peers m))")
      case True
      then have f: "fill_peer m now r = [sorted_peers m ! nat (max_unchoked_peers m - 1)]"
        using False by (simp add: fill_peer_def)
      show ?thesis
        by (simp add: recalculate_choking_def Let_def ne slice el f idx [OF True] True False)
    next
      case nle: False
      then have f: "fill_peer m now r = []"
        using False by (simp add: fill_peer_def)
      show ?thesis
        by (simp add: recalculate_choking_def Let_def ne slice el f nle False)
    qed
  qed
qed

lemma recalculate_choking_eq:
  assumes wf: "wf_registry m" and K: "1 \<le> max_unchoked_peers m"
      and ne: "interested_peers m \<noteq> []"
  shows "recalculate_choking m now r =
      Inr (map (\<lambda>p. p\<lparr>is_choked_by_us := False\<rparr>) (top_peers m @ fill_peer m now r),
           m\<lparr>peers := map (\<lambda>(k, p). (k, p\<lparr>is_choked_by_us :=
                                   p \<notin> set (top_peers m @ fill_peer m now r)\<rparr>)) (peers m),
             last_optimistic_unchoke :=
               (if timer_elapsed m now \<and> other_peers m \<noteq> [] then now
                else last_optimistic_unchoke m)\<rparr>)"
proof -
  have sub: "set (top_peers m @ fill_peer m now r) \<subseteq> snd ` set (peers m)"
    using set_top_peers [of m] set_fill_peer [OF wf K, of now r] set_interested_peers [of m]
    by auto
  show ?thesis
    unfolding recalculate_choking_raw [OF K ne] by (rule choke_commit [OF wf sub])
qed

lemma candidate_sel:
  "download_rate (candidate a b rate t) = rate"
  "is_choking_us (candidate a b rate t) = False"
  "is_interested_in_us (candidate a b rate t) = True"
  "get_peer_id (candidate a b rate t) = make_peer_id a b"
  by (simp_all add: candidate_def PeerStats_init_def get_peer_id_def)

lemma trio_wf: "wf_registry (trio_registry k)"
  by (simp add: wf_registry_def trio_registry_def candidate_sel make_peer_id_def str_int_6881)

lemma trio_interested:
  "interested_peers (trio_registry k) =
     [candidate ''10.0.0.1'' 6881 5 1, candidate ''10.0.0.2'' 6881 9 2,
      candidate ''10.0.0.3'' 6881 7 3]"
  by (simp add: interested_peers_def trio_registry_def candidate_sel)

lemma trio_sorted:
  "sorted_peers (trio_registry k) =
     [candidate ''10.0.0.2'' 6881 9 2, candidate ''10.0.0.3'' 6881 7 3,
      candidate ''10.0.0.1'' 6881 5 1]"
  by (simp add: sorted_peers_def trio_interested candidate_sel)

lemma trio_peers:
  "peers (trio_registry k) =
     [(''10.0.0.1:6881'', candidate ''10.0.0.1'' 6881 5 1),
      (''10.0.0.2:6881'', candidate ''10.0.0.2'' 6881 9 2),
      (''10.0.0.3:6881'', candidate ''10.0.0.3'' 6881 7 3)]"
  by (simp add: trio_registry_def)

lemma trio_not_elapsed: "\<not> timer_elapsed (trio_registry k) 10"
  by (simp add: timer_elapsed_def trio_registry_def)

lemma trio_K: "max_unchoked_peers (trio_registry k) = k"
  by (simp add: trio_registry_def)

lemma trio_top4: "top_peers (trio_registry 4) = sorted_peers (trio_registry 4)"
  by (simp add: top_peers_def trio_sorted trio_K)

lemma trio_top2: "top_peers (trio_registry 2) = [candidate ''10.0.0.2'' 6881 9 2]"
  by (simp add: top_peers_def trio_sorted trio_K)

lemma trio_fill2: "fill_peer (trio_registry 2) 10 0 = [candidate ''10.0.0.3'' 6881 7 3]"
  by (simp add: fill_peer_def trio_sorted trio_K trio_not_elapsed)

lemma trio_ids:
  "map get_peer_id (sorted_peers (trio_registry k)) =
     [''10.0.0.2:6881'', ''10.0.0.3:6881'', ''10.0.0.1:6881'']"
  by (simp add: trio_sorted candidate_sel make_peer_id_def str_int_6881)

text \<open>
  Claim C1, as stated, has a fill peer added on every re-evaluation. With three candidates
  and \<open>K = 4\<close> (timer not elapsed) the source unchokes the top \<open>K - 1 = 3\<close> peers and
  nothing else: there is no \<open>K\<close>-th sorted peer and the guard
  \<open>len(sorted_peers) >= self.max_unchoked_peers\<close> skips the fill.
\<close>

theorem recalculate_choking_no_fill_peer:
  "max_unchoked_peers (trio_registry 4) = 4
   \<and> map get_peer_id (top_peers (trio_registry 4)) =
       [''10.0.0.2:6881'', ''10.0.0.3:6881'', ''10.0.0.1:6881'']
   \<and> map get_peer_id (fst (projr (recalculate_choking (trio_registry 4) 10 0))) =
       [''10.0.0.2:6881'', ''10.0.0.3:6881'', ''10.0.0.1:6881'']"
proof -
  have "recalculate_choking (trio_registry 4) 10 0 =
      Inr (map (set_choke (map get_peer_id (sorted_peers (trio_registry 4))))
             (sorted_peers (trio_registry 4)),
           (trio_registry 4)\<lparr>peers := map (\<lambda>(k, p). (k, set_choke (map get_peer_id
                (sorted_peers (trio_registry 4))) p)) (peers (trio_registry 4)),
             last_optimistic_unchoke := last_optimistic_unchoke (trio_registry 4)\<rparr>)"
    using trio_not_elapsed [of 4]
    by (simp add: recalculate_choking_def Let_def trio_interested py_slice_to_def trio_K
        timer_elapsed_def trio_sorted)
  then have "map get_peer_id (fst (projr (recalculate_choking (trio_registry 4) 10 0))) =
      map get_peer_id (sorted_peers (trio_registry 4))"
    by (simp add: set_choke_def get_peer_id_def)
  then show ?thesis
    by (simp add: trio_K trio_top4 trio_ids)
qed

lemma length_fill_peer: "length (fill_peer m now r) \<le> 1"
  by (simp add: fill_peer_def)

lemma fill_peer_empty_iff:
  "fill_peer m now r = [] \<longleftrightarrow>
     (if timer_elapsed m now then other_peers m = []
      else int (length (sorted_peers m)) < max_unchoked_peers m)"
  by (auto simp add: fill_peer_def)

text \<open>
  Claim C1, amended: for a registry whose keys are the peer ids of its entries, with
  \<open>K = max_unchoked_peers \<ge> 1\<close> and at least one candidate, the re-evaluation considers
  exactly the entries with \<open>is_interested_in_us\<close> and not \<open>is_choking_us\<close>, sorts them
  by \<open>download_rate\<close> descending (a stable sort: ties keep registry order, which is older
  \<open>connection_time\<close> first whenever the registry is in admission order), selects the top
  \<open>K - 1\<close>, and adds at most one fill peer, always a candidate outside the top \<open>K - 1\<close>:
  when more than \<open>optimistic_unchoke_interval\<close> seconds have passed since the last
  optimistic unchoke, a randomly indexed candidate outside the top \<open>K - 1\<close> if there is
  one (and only then is the timer reset); otherwise the \<open>K\<close>-th sorted peer if there are
  at least \<open>K\<close> candidates. Afterwards exactly the selected entries have
  \<open>is_choked_by_us = False\<close>, every other entry has \<open>True\<close>, and nothing else in the
  registry changes. (What happens when no peer is a candidate is not part of this
  statement.)
\<close>

theorem recalculate_choking_policy:
  assumes wf: "wf_registry m" and K: "1 \<le> max_unchoked_peers m"
      and ne: "interested_peers m \<noteq> []"
  shows "recalculate_choking m now r =
      Inr (map (\<lambda>p. p\<lparr>is_choked_by_us := False\<rparr>) (top_peers m @ fill_peer m now r),
           m\<lparr>peers := map (\<lambda>(k, p). (k, p\<lparr>is_choked_by_us :=
                                   p \<notin> set (top_peers m @ fill_peer m now r)\<rparr>)) (peers m),
             last_optimistic_unchoke :=
               (if timer_elapsed m now \<and> other_peers m \<noteq> [] then now
                else last_optimistic_unchoke m)\<rparr>)
    \<and> set (interested_peers m) =
        {p \<in> snd ` set (peers m). is_interested_in_us p \<and> \<not> is_choking_us p}
    \<and> mset (sorted_peers m) = mset (interested_peers m)
    \<and> sorted_wrt (\<lambda>a b. download_rate b \<le> download_rate a) (sorted_peers m)
    \<and> (sorted (map (connection_time \<circ> snd) (peers m)) \<longrightarrow>
          sorted_wrt rate_order (sorted_peers m))
    \<and> length (fill_peer m now r) \<le> 1
    \<and> set (fill_peer m now r) \<subseteq> set (interested_peers m) - set (top_peers m)
    \<and> (fill_peer m now r = [] \<longleftrightarrow>
          (if timer_elapsed m now then other_peers m = []
           else int (length (sorted_peers m)) < max_unchoked_peers m))"
  using recalculate_choking_eq [OF wf K ne, of now r] set_interested_peers [of m]
    mset_sorted_peers [of m] sorted_peers_descending [of m] sorted_peers_rate_order [of m]
    length_fill_peer [of m now r] set_fill_peer [OF wf K, of now r]
    fill_peer_empty_iff [of m now r]
  by (intro conjI impI)

theorem recalculate_choking_policy_witness:
  "wf_registry (trio_registry 2) \<and> 1 \<le> max_unchoked_peers (trio_registry 2)
   \<and> interested_peers (trio_registry 2) \<noteq> []
   \<and> map get_peer_id (fst (projr (recalculate_choking (trio_registry 2) 10 0))) =
       [''10.0.0.2:6881'', ''10.0.0.3:6881'']
   \<and> map (\<lambda>(k, p). (k, is_choked_by_us p))
        (peers (snd (projr (recalculate_choking (trio_registry 2) 10 0)))) =
       [(''10.0.0.1:6881'', True), (''10.0.0.2:6881'', False), (''10.0.0.3:6881'', False)]"
proof -
  have K: "1 \<le> max_unchoked_peers (trio_registry 2)"
    by (simp add: trio_K)
  have ne: "interested_peers (trio_registry 2) \<noteq> []"
    by (simp add: trio_interested)
  note eq = recalculate_choking_policy [OF trio_wf K ne, of 10 0, THEN conjunct1]
  have sel: "map get_peer_id (fst (projr (recalculate_choking (trio_registry 2) 10 0))) =
       [''10.0.0.2:6881'', ''10.0.0.3:6881'']"
    unfolding eq
    by (simp add: trio_top2 trio_fill2 candidate_def PeerStats_init_def get_peer_id_def
        make_peer_id_def str_int_6881)
  have flags: "map (\<lambda>(k, p). (k, is_choked_by_us p))
        (peers (snd (projr (recalculate_choking (trio_registry 2) 10 0)))) =
       [(''10.0.0.1:6881'', True), (''10.0.0.2:6881'', False), (''10.0.0.3:6881'', False)]"
    unfolding eq
    by (simp add: trio_top2 trio_fill2 trio_peers candidate_def PeerStats_init_def)
  from trio_wf K ne sel flags show ?thesis by (intro conjI)
qed

text \<open>With no candidate the source returns early and leaves every flag as it was.\<close>

lemma recalculate_choking_no_candidates:
  "interested_peers m = [] \<Longrightarrow> recalculate_choking m now r = Inr ([], m)"
  by (simp add: recalculate_choking_def)

lemma wf_registry_init: "wf_registry (PeerManager_init k now)"
  by (simp add: wf_registry_def PeerManager_init_def)

lemma wf_registry_add_peer:
  assumes "wf_registry m"
  shows "wf_registry (snd (add_peer m a b now))"
proof (cases "map_of (peers m) (make_peer_id a b)")
  case None
  then have "make_peer_id a b \<notin> fst ` set (peers m)"
    by (simp add: map_of_eq_None_iff)
  with assms None show ?thesis
    by (simp add: wf_registry_def add_peer_def Let_def get_peer_id_def PeerStats_init_def)
next
  case (Some p)
  with assms show ?thesis by (simp add: add_peer_def Let_def)
qed

lemma admission_order_add_peer:
  assumes "sorted (map (connection_time \<circ> snd) (peers m))"
      and "\<forall>(k, p)\<in>set (peers m). connection_time p \<le> now"
  shows "sorted (map (connection_time \<circ> snd) (peers (snd (add_peer m a b now))))"
proof (cases "map_of (peers m) (make_peer_id a b)")
  case None
  with assms show ?thesis
    by (auto simp add: add_peer_def Let_def sorted_append PeerStats_init_def)
next
  case (Some p)
  with assms show ?thesis by (simp add: add_peer_def Let_def)
qed

section \<open>Handshake verification\<close>

lemma parse_handshake_ok_iff:
  "(\<exists>h. parse_handshake data = Inr h) \<longleftrightarrow>
     (68 \<le> length data \<and> (of_char (data ! 0) :: nat) = 19 \<and> slice 1 20 data = pstr)"
  by (simp add: parse_handshake_def pstr_def)

lemma parse_handshake_error:
  "parse_handshake data = Inl e \<Longrightarrow> e = ValueError"
  by (simp add: parse_handshake_def split: if_splits)

text \<open>
  Claim C6, as stated, requires every accepted handshake to carry our own info-hash. The
  source accepts a well-formed handshake for a different torrent: here our info-hash is
  twenty bytes \<open>a\<close> and the peer answers with twenty bytes \<open>b\<close>.
\<close>

theorem handshake_foreign_info_hash_accepted:
  "handshake_step (replicate 20 (CHR ''a''))
       (create_handshake (replicate 20 (CHR ''b'')) (replicate 20 (CHR ''c''))) = Inr ()
   \<and> slice 28 48 (create_handshake (replicate 20 (CHR ''b'')) (replicate 20 (CHR ''c'')))
       \<noteq> replicate 20 (CHR ''a'')"
  by code_simp

text \<open>
  Claim C6, amended: after reading exactly 68 bytes, the handshaking step fails (with the
  \<open>ValueError\<close> of \<open>parse_handshake\<close>) unless the first byte is \<open>0x13\<close> and the next 19
  bytes are \<open>BitTorrent protocol\<close>; when they are, it succeeds whatever the peer's
  info-hash field and our own info-hash are.
\<close>

theorem handshake_step_checks_protocol_only:
  assumes "length response = 68"
  shows "handshake_step info_hash response =
           (if (of_char (response ! 0) :: nat) = 19 \<and> slice 1 20 response = pstr
            then Inr () else Inl ValueError)"
  using assms by (simp add: handshake_step_def parse_handshake_def pstr_def)

theorem handshake_step_checks_protocol_only_witness:
  "length (create_handshake (replicate 20 (CHR ''b'')) (replicate 20 (CHR ''c''))) = 68
   \<and> handshake_step (replicate 20 (CHR ''a''))
       (create_handshake (replicate 20 (CHR ''b'')) (replicate 20 (CHR ''c''))) = Inr ()"
proof -
  let ?r = "create_handshake (replicate 20 (CHR ''b'')) (replicate 20 (CHR ''c''))"
  have len: "length ?r = 68"
    by code_simp
  have proto: "(of_char (?r ! 0) :: nat) = 19 \<and> slice 1 20 ?r = pstr"
    by code_simp
  have "handshake_step (replicate 20 (CHR ''a'')) ?r = Inr ()"
    using handshake_step_checks_protocol_only [OF len, of "replicate 20 (CHR ''a'')"] proto
    by (simp only: if_True simp_thms)
  with len show ?thesis
    by (simp only: simp_thms)
qed

lemma unpack_pack_be32:
  assumes "n < 4294967296"
  shows "unpack_be32 (pack_be32 n) = n"
proof -
  define x where "x = n div 256"
  define y where "y = x div 256"
  define z where "z = y div 256"
  have d1: "n div 65536 = y"
    by (simp add: x_def y_def div_mult2_eq)
  have d2: "n div 16777216 = z"
    by (simp add: x_def y_def z_def div_mult2_eq)
  have "z < 256"
    using assms unfolding d2 [symmetric] by (simp add: div_less_iff_less_mult)
  then have "256 * (256 * (256 * (z mod 256) + y mod 256) + x mod 256) + n mod 256 =
      256 * (256 * (256 * (y div 256) + y mod 256) + x mod 256) + n mod 256"
    by (simp add: z_def)
  also have "\<dots> = 256 * (256 * (x div 256) + x mod 256) + n mod 256"
    by (simp add: y_def)
  also have "\<dots> = n"
    by (simp add: x_def)
  finally show ?thesis
    by (simp add: unpack_be32_def pack_be32_def d1 d2 x_def [symmetric])
qed

lemma parse_message_consumed:
  assumes "parse_message x = (a, b, c)" "c \<noteq> 0"
  shows "c \<le> length x" "4 \<le> c"
  using assms by (auto simp add: parse_message_def Let_def split: if_splits)

lemma parse_message_full:
  assumes "4 \<le> length x" "unpack_be32 (slice 0 4 x) = n" "n \<noteq> 0" "4 + n \<le> length x"
  shows "parse_message x = (Some (of_char (x ! 4)), Some (slice 5 (4 + n) x), 4 + n)"
  using assms by (simp add: parse_message_def Let_def)

lemma parse_message_append:
  assumes "parse_message x = (a, b, c)" "c \<noteq> 0"
  shows "parse_message (x @ d) = (a, b, c)"
proof -
  define n where "n = unpack_be32 (slice 0 4 x)"
  from assms have len: "4 \<le> length x"
    by (auto simp add: parse_message_def Let_def split: if_splits)
  then have hdr: "unpack_be32 (slice 0 4 (x @ d)) = n"
    by (simp add: slice_def n_def)
  show ?thesis
  proof (cases "n = 0")
    case True
    with len hdr have "parse_message (x @ d) = (None, Some [], 4)"
      by (simp add: parse_message_def Let_def)
    moreover from True len have "parse_message x = (None, Some [], 4)"
      by (simp add: parse_message_def Let_def n_def)
    ultimately show ?thesis using assms(1) by simp
  next
    case False
    with assms len have full: "4 + n \<le> length x"
      by (auto simp add: parse_message_def Let_def n_def split: if_splits)
    have px: "parse_message x = (Some (of_char (x ! 4)), Some (slice 5 (4 + n) x), 4 + n)"
      using len n_def [symmetric] False full by (rule parse_message_full)
    have "parse_message (x @ d) =
            (Some (of_char ((x @ d) ! 4)), Some (slice 5 (4 + n) (x @ d)), 4 + n)"
      using _ hdr False by (rule parse_message_full) (use len full in simp_all)
    moreover have "slice 5 (4 + n) (x @ d) = slice 5 (4 + n) x"
      using full by (simp add: slice_def)
    moreover have "(x @ d) ! 4 = x ! 4"
      using full False by (simp add: nth_append)
    ultimately show ?thesis
      using px assms(1) by simp
  qed
qed

lemma drain_append:
  "drain (b @ d) =
     (case drain b of (msgs, r) \<Rightarrow>
        (case drain (r @ d) of (later, r') \<Rightarrow> (msgs @ later, r')))"
proof (induction b rule: drain.induct)
  case (1 buffer)
  obtain a p c where pm: "parse_message buffer = (a, p, c)"
    by (cases "parse_message buffer") auto
  show ?case
  proof (cases "c = 0")
    case True
    with pm have "drain buffer = ([], buffer)"
      by (simp add: drain.simps [of buffer])
    then show ?thesis by (simp split: prod.splits)
  next
    case False
    note app = parse_message_append [OF pm False, of d]
    from parse_message_consumed [OF pm False] have "drop c (buffer @ d) = drop c buffer @ d"
      by simp
    with "1.IH" [OF pm [symmetric] refl False] pm app False show ?thesis
      by (simp add: drain.simps [of buffer] drain.simps [of "buffer @ d"] split: prod.splits)
  qed
qed

lemma drain_idem:
  "drain b = (msgs, r) \<Longrightarrow> drain r = ([], r)"
proof (induction b arbitrary: msgs r rule: drain.induct)
  case (1 buffer)
  obtain a p c where pm: "parse_message buffer = (a, p, c)"
    by (cases "parse_message buffer") auto
  show ?case
  proof (cases "c = 0")
    case True
    with pm have db: "drain buffer = ([], buffer)"
      by (simp add: drain.simps [of buffer])
    with "1.prems" have "r = buffer" by simp
    with db show ?thesis by simp
  next
    case False
    with pm "1.prems" obtain ms where "drain (drop c buffer) = (ms, r)"
      by (auto simp add: drain.simps [of buffer] split: prod.splits)
    with "1.IH" [OF pm [symmetric] refl False] show ?thesis by blast
  qed
qed

lemma feed_eq_drain:
  "drain b = ([], b) \<Longrightarrow> feed b chunks = drain (b @ concat chunks)"
proof (induction chunks arbitrary: b)
  case Nil
  then show ?case by simp
next
  case (Cons data chunks)
  obtain msgs b' where d: "drain (b @ data) = (msgs, b')"
    by (cases "drain (b @ data)") auto
  from drain_idem [OF d] have "feed b' chunks = drain (b' @ concat chunks)"
    by (rule Cons.IH)
  moreover have "drain ((b @ data) @ concat chunks) =
      (case drain (b' @ concat chunks) of (later, r') \<Rightarrow> (msgs @ later, r'))"
    by (simp only: drain_append [of "b @ data"] d prod.case)
  ultimately show ?case
    using d by simp
qed

lemma drain_Nil: "drain [] = ([], [])"
  by (simp add: drain.simps [of "[]"] parse_message_def)

lemma length_pack_be32: "length (pack_be32 n) = 4"
  by (simp add: pack_be32_def)

lemma parse_message_wire:
  assumes "valid_message m"
  shows "parse_message (wire m @ rest) = (fst (parsed m), snd (parsed m), length (wire m))"
proof (cases m)
  case KeepAlive
  have "unpack_be32 (pack_be32 0) = 0" by (simp add: unpack_pack_be32)
  then show ?thesis
    by (simp add: KeepAlive parse_message_def slice_def length_pack_be32)
next
  case (Message i p)
  with assms have v: "i < 256" "1 + length p < 4294967296" by simp_all
  then have w: "wire (Message i p) = pack_be32 (1 + length p) @ [char_of i] @ p"
    by (simp add: create_message_def)
  have u: "unpack_be32 (pack_be32 (1 + length p)) = 1 + length p"
    using v(2) by (rule unpack_pack_be32)
  have i: "(of_char (char_of i :: char) :: nat) = i"
    using v(1) by simp
  have "parse_message ((pack_be32 (1 + length p) @ [char_of i] @ p) @ rest) =
          (Some i, Some p, 4 + (1 + length p))"
    using u i by (simp add: parse_message_def slice_def length_pack_be32 nth_append)
  then show ?thesis
    unfolding Message w by (simp add: length_pack_be32)
qed

lemma wire_nonempty: "valid_message m \<Longrightarrow> wire m \<noteq> []"
  by (cases m) (auto simp add: pack_be32_def create_message_def)

lemma drain_wire:
  assumes "\<forall>m\<in>set ms. valid_message m"
  shows "drain (concat (map wire ms)) = (map parsed ms, [])"
  using assms
proof (induction ms)
  case Nil
  then show ?case by (simp add: drain_Nil)
next
  case (Cons m ms)
  then have v: "valid_message m" by simp
  from parse_message_wire [OF v, of "concat (map wire ms)"] wire_nonempty [OF v] Cons
  show ?case
    by (simp add: drain.simps [of "wire m @ concat (map wire ms)"])
qed

lemma parse_message_need_more:
  assumes "length data < 4 \<or> length data < 4 + unpack_be32 (slice 0 4 data)"
  shows "parse_message data = (None, None, 0)"
  using assms by (auto simp add: parse_message_def Let_def)

lemma drain_need_more:
  "parse_message data = (None, None, 0) \<Longrightarrow> drain data = ([], data)"
  by (simp add: drain.simps [of data])

text \<open>
  Claim C5: \<open>parse_message\<close> answers "need more data" (nothing consumed, and the receive
  loop leaves the buffer as it is) when the buffer has fewer than 4 bytes or fewer than
  \<open>4 + length\<close> bytes; a zero length prefix is a keep-alive consuming 4 bytes; otherwise
  it returns the id byte, the \<open>length - 1\<close> payload bytes and \<open>4 + length\<close> consumed.
  Consequently, for messages that \<open>create_message\<close> can build (and keep-alives), however
  their concatenation is cut into received chunks, the receive loop emits exactly the
  original sequence and ends with an empty buffer.
\<close>

theorem parse_message_framing:
  "(length data < 4 \<or> length data < 4 + unpack_be32 (slice 0 4 data) \<longrightarrow>
      parse_message data = (None, None, 0) \<and> drain data = ([], data))
   \<and> (4 \<le> length data \<and> unpack_be32 (slice 0 4 data) = 0 \<longrightarrow>
      parse_message data = (None, Some [], 4))
   \<and> (4 \<le> length data \<and> unpack_be32 (slice 0 4 data) \<noteq> 0
        \<and> 4 + unpack_be32 (slice 0 4 data) \<le> length data \<longrightarrow>
      parse_message data =
        (Some (of_char (data ! 4)), Some (slice 5 (4 + unpack_be32 (slice 0 4 data)) data),
         4 + unpack_be32 (slice 0 4 data))
      \<and> length (slice 5 (4 + unpack_be32 (slice 0 4 data)) data) =
          unpack_be32 (slice 0 4 data) - 1)
   \<and> (valid_message (Message message_id payload) \<longrightarrow>
      create_message message_id payload = Inr (wire (Message message_id payload)))
   \<and> ((\<forall>m\<in>set ms. valid_message m) \<and> concat chunks = concat (map wire ms) \<longrightarrow>
      feed [] chunks = (map parsed ms, []))"
proof (intro conjI impI)
  assume a: "length data < 4 \<or> length data < 4 + unpack_be32 (slice 0 4 data)"
  then show "parse_message data = (None, None, 0)"
    by (rule parse_message_need_more)
  then show "drain data = ([], data)"
    by (rule drain_need_more)
next
  assume "4 \<le> length data \<and> unpack_be32 (slice 0 4 data) = 0"
  then show "parse_message data = (None, Some [], 4)"
    by (simp add: parse_message_def)
next
  assume c: "4 \<le> length data \<and> unpack_be32 (slice 0 4 data) \<noteq> 0
        \<and> 4 + unpack_be32 (slice 0 4 data) \<le> length data"
  then show "parse_message data =
        (Some (of_char (data ! 4)), Some (slice 5 (4 + unpack_be32 (slice 0 4 data)) data),
         4 + unpack_be32 (slice 0 4 data))"
    by (simp add: parse_message_full)
  from c have "unpack_be32 (slice 0 4 data) - 1 \<le> length data - 5"
    by linarith
  then show "length (slice 5 (4 + unpack_be32 (slice 0 4 data)) data) =
          unpack_be32 (slice 0 4 data) - 1"
    by (simp add: slice_def min_absorb2)
next
  assume "valid_message (Message message_id payload)"
  then show "create_message message_id payload = Inr (wire (Message message_id payload))"
    by (simp add: create_message_def)
next
  assume d: "(\<forall>m\<in>set ms. valid_message m) \<and> concat chunks = concat (map wire ms)"
  have "feed [] chunks = drain ([] @ concat chunks)"
    using drain_Nil by (rule feed_eq_drain)
  also have "\<dots> = drain (concat (map wire ms))"
    using d by simp
  also have "\<dots> = (map parsed ms, [])"
    using d by (simp add: drain_wire)
  finally show "feed [] chunks = (map parsed ms, [])" .
qed

lemma sample_valid: "\<forall>m\<in>set sample_messages. valid_message m"
  by (simp add: sample_messages_def)

theorem parse_message_framing_witness:
  "length ''ab'' < 4 \<and> drain ''ab'' = ([], ''ab'')
   \<and> 4 \<le> length (pack_be32 0) \<and> unpack_be32 (slice 0 4 (pack_be32 0)) = 0
   \<and> parse_message (pack_be32 0) = (None, Some [], 4)
   \<and> unpack_be32 (slice 0 4 (wire (Message 7 ''xyz''))) = 4
   \<and> parse_message (wire (Message 7 ''xyz'')) = (Some 7, Some ''xyz'', 8)
   \<and> valid_message (Message 7 ''xyz'')
   \<and> create_message 7 ''xyz'' = Inr (wire (Message 7 ''xyz''))
   \<and> list_all valid_message sample_messages
   \<and> feed [] [take 3 sample_stream, take 6 (drop 3 sample_stream),
               drop 6 (drop 3 sample_stream)] =
       ([(Some 1, Some []), (None, Some []), (Some 7, Some ''xyz'')], [])"
proof -
  have a: "length ''ab'' < 4 \<or> length ''ab'' < 4 + unpack_be32 (slice 0 4 ''ab'')"
    by simp
  note A = parse_message_framing [of "''ab''", THEN conjunct1, rule_format, OF a]
  have b: "4 \<le> length (pack_be32 0) \<and> unpack_be32 (slice 0 4 (pack_be32 0)) = 0"
    by (simp add: pack_be32_def unpack_be32_def slice_def)
  note B = parse_message_framing [of "pack_be32 0", THEN conjunct2, THEN conjunct1,
      rule_format, OF b]
  have w: "wire (Message 7 ''xyz'') =
      [char_of (0::nat), char_of (0::nat), char_of (0::nat), char_of (4::nat),
       char_of (7::nat), CHR ''x'', CHR ''y'', CHR ''z'']"
    by (simp add: create_message_def pack_be32_def)
  have u: "unpack_be32 (slice 0 4 (wire (Message 7 ''xyz''))) = 4"
    by (simp only: w) (simp add: unpack_be32_def slice_def)
  have c: "4 \<le> length (wire (Message 7 ''xyz''))
      \<and> unpack_be32 (slice 0 4 (wire (Message 7 ''xyz''))) \<noteq> 0
      \<and> 4 + unpack_be32 (slice 0 4 (wire (Message 7 ''xyz'')))
          \<le> length (wire (Message 7 ''xyz''))"
    unfolding u by (simp only: w) simp
  note C = parse_message_framing [of "wire (Message 7 ''xyz'')", THEN conjunct2,
      THEN conjunct2, THEN conjunct1, rule_format, OF c, THEN conjunct1]
  have C': "parse_message (wire (Message 7 ''xyz'')) = (Some 7, Some ''xyz'', 8)"
    unfolding C u by (simp only: w) (simp add: slice_def)
  have v: "valid_message (Message 7 ''xyz'')"
    by simp
  note D = parse_message_framing [of _ 7 "''xyz''", THEN conjunct2, THEN conjunct2,
      THEN conjunct2, THEN conjunct1, rule_format, OF v]
  have e: "(\<forall>m\<in>set sample_messages. valid_message m)
      \<and> concat [take 3 sample_stream, take 6 (drop 3 sample_stream),
                drop 6 (drop 3 sample_stream)] = concat (map wire sample_messages)"
  proof -
    have "concat [take 3 sample_stream, take 6 (drop 3 sample_stream),
                drop 6 (drop 3 sample_stream)] = sample_stream"
      by (simp only: concat.simps append_Nil2 append_take_drop_id)
    with sample_valid show ?thesis
      unfolding sample_stream_def by (rule conjI)
  qed
  note E = parse_message_framing [THEN conjunct2, THEN conjunct2, THEN conjunct2,
      THEN conjunct2, rule_format, OF e]
  have E': "feed [] [take 3 sample_stream, take 6 (drop 3 sample_stream),
               drop 6 (drop 3 sample_stream)] =
       ([(Some 1, Some []), (None, Some []), (Some 7, Some ''xyz'')], [])"
    unfolding E by (simp add: sample_messages_def)
  have a1: "length ''ab'' < 4"
    by simp
  have sv: "list_all valid_message sample_messages"
    using sample_valid by (simp only: list_all_iff)
  from a1 A [THEN conjunct2] b [THEN conjunct1] b [THEN conjunct2] B u C' v D sv E'
  show ?thesis
    by (intro conjI)
qed









lemma FileManager_init_bad_name:
  "\<not> utf8_valid (if_name info) \<Longrightarrow> FileManager_init info base = Inl UnicodeDecodeError"
  by (simp add: FileManager_init_def decode_utf8_def)











lemma try_peers_verified:
  "try_peers sha1 net expected peer first3 candidates = Some piece_data \<Longrightarrow>
     piece_data \<noteq> [] \<and> sha1 piece_data = expected
     \<and> (\<exists>p\<in>set candidates. net p = Some piece_data)"
  by (induction candidates) (auto split: if_splits option.splits)

lemma download_and_verify_piece_hashes:
  "pieces_hashes (snd (download_and_verify_piece sha1 net st peer piece_idx)) = pieces_hashes st"
  by (simp add: download_and_verify_piece_def split: option.splits)

lemma expected_hash_step:
  "expected_hash (snd (download_and_verify_piece sha1 net st peer piece_idx)) i =
     expected_hash st i"
  by (simp add: expected_hash_def download_and_verify_piece_hashes)

lemma set_update_subset: "set (AList.update k v al) \<subseteq> insert (k, v) (set al)"
  by (induction al) auto

lemma verified_step:
  assumes "verified sha1 st"
  shows "verified sha1 (snd (download_and_verify_piece sha1 net st peer piece_idx))"
proof (cases "try_peers sha1 net (expected_hash st piece_idx) peer
                (take 3 (peers_list st)) (peers_list st)")
  case None
  with assms show ?thesis by (simp add: download_and_verify_piece_def)
next
  case (Some piece_data)
  from try_peers_verified [OF Some] have ok: "sha1 piece_data = expected_hash st piece_idx"
    by simp
  have eq: "snd (download_and_verify_piece sha1 net st peer piece_idx) =
      st\<lparr>pieces_data := AList.update piece_idx piece_data (pieces_data st),
         pieces_downloaded := insert piece_idx (pieces_downloaded st)\<rparr>"
    by (simp add: download_and_verify_piece_def Some)
  have "\<forall>(i, d)\<in>set (AList.update piece_idx piece_data (pieces_data st)).
          sha1 d = expected_hash st i"
    using set_update_subset [of piece_idx piece_data "pieces_data st"] assms ok
    by (auto simp add: verified_def list_all_iff)
  then show ?thesis
    unfolding eq by (simp add: verified_def list_all_iff expected_hash_def)
qed

lemma distinct_step:
  assumes "distinct (map fst (pieces_data st))"
  shows "distinct (map fst (pieces_data (snd (download_and_verify_piece sha1 net st peer i))))"
  using assms by (simp add: download_and_verify_piece_def distinct_update split: option.splits)

lemma run_pieces_invariant:
  assumes "verified sha1 st" "distinct (map fst (pieces_data st))"
  shows "verified sha1 (run_pieces sha1 st calls)
       \<and> distinct (map fst (pieces_data (run_pieces sha1 st calls)))
       \<and> pieces_hashes (run_pieces sha1 st calls) = pieces_hashes st"
  using assms
proof (induction calls arbitrary: st)
  case Nil
  then show ?case by simp
next
  case (Cons call calls)
  obtain peer i net where c: "call = (peer, i, net)" by (cases call) auto
  have v: "verified sha1 (snd (download_and_verify_piece sha1 net st peer i))"
    using Cons.prems(1) by (rule verified_step)
  have d: "distinct (map fst (pieces_data (snd (download_and_verify_piece sha1 net st peer i))))"
    using Cons.prems(2) by (rule distinct_step)
  from Cons.IH [OF v d]
  show ?case
    by (simp add: c download_and_verify_piece_hashes)
qed

lemma verified_init: "verified sha1 (downloader_init hashes admitted)"
  by (simp add: verified_def downloader_init_def)

text \<open>
  Claim C2: a call of \<open>download_and_verify_piece\<close> either commits bytes whose SHA-1 equals
  the expected digest of that piece and reports success, or leaves the state unchanged
  and reports failure. Hence after any run from the initial state every entry of the
  pieces buffer has bytes whose SHA-1 is the expected digest of its index, and everything
  \<open>save_file\<close> writes is such an entry.
\<close>

theorem only_verified_pieces_committed:
  "(case download_and_verify_piece sha1 net st peer piece_idx of
      (ok, st') \<Rightarrow>
        (if ok
         then \<exists>piece_data. sha1 piece_data = expected_hash st piece_idx
                \<and> pieces_data st' = AList.update piece_idx piece_data (pieces_data st)
         else st' = st))
   \<and> (\<forall>(i, d)\<in>set (pieces_data (run_pieces sha1 (downloader_init hashes admitted) calls)).
         sha1 d = slice (i * 20) ((i + 1) * 20) hashes)
   \<and> (\<forall>w\<in>set (save_file (run_pieces sha1 (downloader_init hashes admitted) calls)).
         \<exists>i. (i, w) \<in> set (pieces_data (run_pieces sha1 (downloader_init hashes admitted) calls))
            \<and> sha1 w = slice (i * 20) ((i + 1) * 20) hashes)"
proof (intro conjI)
  show "case download_and_verify_piece sha1 net st peer piece_idx of
      (ok, st') \<Rightarrow>
        (if ok
         then \<exists>piece_data. sha1 piece_data = expected_hash st piece_idx
                \<and> pieces_data st' = AList.update piece_idx piece_data (pieces_data st)
         else st' = st)"
    using try_peers_verified [of sha1 net "expected_hash st piece_idx" peer
        "take 3 (peers_list st)" "peers_list st"]
    by (auto simp add: download_and_verify_piece_def split: option.splits)
next
  let ?st = "run_pieces sha1 (downloader_init hashes admitted) calls"
  have v0: "verified sha1 (downloader_init hashes admitted)"
    by (rule verified_init)
  have d0: "distinct (map fst (pieces_data (downloader_init hashes admitted)))"
    by (simp add: downloader_init_def)
  have inv: "verified sha1 ?st" "pieces_hashes ?st = hashes"
    using run_pieces_invariant [OF v0 d0, of calls]
    by (simp_all add: downloader_init_def)
  then show a: "\<forall>(i, d)\<in>set (pieces_data ?st). sha1 d = slice (i * 20) ((i + 1) * 20) hashes"
    by (auto simp add: verified_def list_all_iff expected_hash_def)
  show "\<forall>w\<in>set (save_file ?st).
         \<exists>i. (i, w) \<in> set (pieces_data ?st) \<and> sha1 w = slice (i * 20) ((i + 1) * 20) hashes"
  proof
    fix w
    assume "w \<in> set (save_file ?st)"
    then obtain i where "(i, w) \<in> set (pieces_data ?st)"
      by (auto simp add: save_file_def)
    with a show "\<exists>i. (i, w) \<in> set (pieces_data ?st)
        \<and> sha1 w = slice (i * 20) ((i + 1) * 20) hashes"
      by auto
  qed
qed

lemma toy_run_pieces_data: "pieces_data toy_run = [(0, ''good'')]"
  by (simp add: toy_run_def downloader_init_def download_and_verify_piece_def
      expected_hash_def slice_def toy_digest_def toy_network_def)

theorem only_verified_pieces_committed_witness:
  "(0, ''good'') \<in> set (pieces_data toy_run)
   \<and> toy_digest ''good'' = slice (0 * 20) ((0 + 1) * 20) (replicate 20 (CHR ''g''))
   \<and> save_file toy_run = [''good'']
   \<and> toy_digest ''bad'' \<noteq> slice (0 * 20) ((0 + 1) * 20) (replicate 20 (CHR ''g''))"
proof -
  have m: "(0, ''good'') \<in> set (pieces_data toy_run)"
    by (simp add: toy_run_pieces_data)
  note all = only_verified_pieces_committed [THEN conjunct2, THEN conjunct1,
      of toy_digest "replicate 20 (CHR ''g'')"
        "[(''10.0.0.1'', 6881), (''10.0.0.2'', 6881)]" "[((''10.0.0.1'', 6881), 0, toy_network)]",
      folded toy_run_def]
  from all m have d: "toy_digest ''good'' = slice (0 * 20) ((0 + 1) * 20) (replicate 20 (CHR ''g''))"
    by (auto dest: bspec)
  have s: "save_file toy_run = [''good'']"
    by (simp add: save_file_def toy_run_pieces_data)
  have b: "toy_digest ''bad'' \<noteq> slice (0 * 20) ((0 + 1) * 20) (replicate 20 (CHR ''g''))"
    by (simp add: toy_digest_def slice_def)
  from m d s b show ?thesis by (intro conjI)
qed










lemma distinct_map_imp: "distinct (map f xs) \<Longrightarrow> distinct xs"
  by (simp add: distinct_map)









end
